theory Spec2Isabelle
  imports Complex_Main "HOL-Library.Word"
begin

section \<open>JavaScript values of the client\<close>

text \<open>
  The client of \<^verbatim>\<open>src/client.js\<close> handles byte chunks (\<^verbatim>\<open>Uint8Array\<close>), JavaScript
  strings (sequences of 16-bit code units) and the values \<^verbatim>\<open>JSON.parse\<close> builds.
\<close>

type_synonym byte = "8 word"
type_synonym code_unit = "16 word"
type_synonym jsstring = "code_unit list"

definition lit :: "string \<Rightarrow> jsstring" where
  \<comment> \<open>a string literal of the source, one code unit per character\<close>
  "lit s = map of_char s"

definition bytes_of :: "string \<Rightarrow> byte list" where
  \<comment> \<open>the bytes of an ASCII text, as they come over the wire\<close>
  "bytes_of s = map of_char s"

datatype jsval =
    JUndefined
  | JNull
  | JBool bool
  | JNum real
  | JStr jsstring
  | JArr "jsval list"
  | JObj "(jsstring \<times> jsval) list"
  | JBytes "byte list"          \<comment> \<open>a \<^verbatim>\<open>Uint8Array\<close>\<close>
  | JStream "byte list list"    \<comment> \<open>an iterable byte stream: its chunks, in order of arrival\<close>

datatype error =
    FetchError string   \<comment> \<open>what \<^verbatim>\<open>fetch\<close> rejects with; the text identifies the exception\<close>
  | SyntaxError         \<comment> \<open>thrown by \<^verbatim>\<open>JSON.parse\<close>\<close>
  | TypeError           \<comment> \<open>thrown by the iteration protocol and by \<^verbatim>\<open>TextDecoder.decode\<close>\<close>

section \<open>The retrying transport\<close>

record response =
  status :: int
  chunks :: "byte list list"   \<comment> \<open>the body, in the pieces the network delivers\<close>

definition ok :: "response \<Rightarrow> bool" where
  \<comment> \<open>\<^verbatim>\<open>response.ok\<close> of the Fetch standard: the status is in the range 200 to 299\<close>
  "ok r = (200 \<le> status r \<and> status r \<le> 299)"

definition RETRY_STATUS_CODES :: "int list" where
  "RETRY_STATUS_CODES = [429, 500, 502, 503, 504]"

definition ENDPOINT :: jsstring where
  "ENDPOINT = lit ''https://api.mistral.ai''"

record options =
  http_method :: jsstring   \<comment> \<open>the field \<^verbatim>\<open>method\<close>\<close>
  headers :: "(jsstring \<times> jsstring) list"
  body :: jsval

datatype fetch_outcome = Rejected error | Resolved response

text \<open>
  \<^verbatim>\<open>fetch\<close> is the outside world: what the n-th call (counted from 0) does with a url and
  its options. The state of a call is the trace of what it has done so far, in order: the
  \<^verbatim>\<open>fetch\<close> calls and the durations handed to \<^verbatim>\<open>_delay\<close>.
\<close>

type_synonym transport = "nat \<Rightarrow> jsstring \<Rightarrow> options \<Rightarrow> fetch_outcome"

text \<open>
  The delay is a JavaScript number: a finite double, given by the real number it denotes,
  an infinity or NaN. \<^verbatim>\<open>retryDelay * 2\<close> is exact on a finite double unless the result
  reaches \<open>2 ^ 1024\<close> in magnitude, where it is an infinity.
\<close>

datatype number = Fin real | PosInf | NegInf | NaN

definition overflow_threshold :: real where
  "overflow_threshold = 2 ^ 1024"

fun times_two :: "number \<Rightarrow> number" where
  "times_two (Fin x) =
     (if overflow_threshold \<le> \<bar>x\<bar> * 2 then (if 0 < x then PosInf else NegInf)
      else Fin (x * 2))"
| "times_two PosInf = PosInf"
| "times_two NegInf = NegInf"
| "times_two NaN = NaN"

datatype io = Fetch jsstring options | Delay number

type_synonym net = "io list"

fun is_attempt :: "io \<Rightarrow> bool" where
  "is_attempt (Fetch url opts) = True"
| "is_attempt (Delay ms) = False"

definition attempts :: "net \<Rightarrow> nat" where
  "attempts s = length (filter is_attempt s)"

fun waits :: "net \<Rightarrow> number list" where
  "waits [] = []"
| "waits (Fetch url opts # s) = waits s"
| "waits (Delay ms # s) = ms # waits s"

definition fetch :: "transport \<Rightarrow> jsstring \<Rightarrow> options \<Rightarrow> net \<Rightarrow> fetch_outcome \<times> net" where
  "fetch t url opts s = (t (attempts s) url opts, s @ [Fetch url opts])"

definition delay :: "number \<Rightarrow> net \<Rightarrow> net" where
  \<comment> \<open>\<^verbatim>\<open>_delay(ms)\<close>: a timer and nothing else\<close>
  "delay ms s = s @ [Delay ms]"

text \<open>
  \<^verbatim>\<open>_fetchWithRetry(url, options, retries, retryDelay)\<close>. The recursive calls are returned
  without \<^verbatim>\<open>await\<close>, so a rejection of the inner call is not caught by the outer
  \<^verbatim>\<open>catch\<close>: it is the result as it stands. \<^verbatim>\<open>retries\<close> is an integer of
  magnitude at most \<open>2 ^ 53\<close>, the range in which \<^verbatim>\<open>retries - 1\<close> is exact on a
  JavaScript number.
\<close>

function fetchWithRetry ::
  "transport \<Rightarrow> jsstring \<Rightarrow> options \<Rightarrow> int \<Rightarrow> number \<Rightarrow> net
    \<Rightarrow> (error + response) \<times> net" where
  "fetchWithRetry t url opts retries retryDelay s =
     (case fetch t url opts s of
        (Resolved r, s1) \<Rightarrow>
          if ok r \<or> status r \<notin> set RETRY_STATUS_CODES \<or> retries \<le> 0 then (Inr r, s1)
          else fetchWithRetry t url opts (retries - 1) (times_two retryDelay)
                 (delay retryDelay s1)
      | (Rejected e, s1) \<Rightarrow>
          if retries \<le> 0 then (Inl e, s1)
          else fetchWithRetry t url opts (retries - 1) (times_two retryDelay)
                 (delay retryDelay s1))"
  by pat_completeness auto
termination
  by (relation "measure (\<lambda>(t, url, opts, retries, retryDelay, s). nat retries)") auto

declare fetchWithRetry.simps [simp del]

definition fetchWithRetry_opt ::
  "transport \<Rightarrow> jsstring \<Rightarrow> options \<Rightarrow> int option \<Rightarrow> number option \<Rightarrow> net
    \<Rightarrow> (error + response) \<times> net" where
  \<comment> \<open>the default parameters \<^verbatim>\<open>retries = 3, retryDelay = 500\<close>: \<open>None\<close> is an argument left out\<close>
  "fetchWithRetry_opt t url opts retries retryDelay s =
     fetchWithRetry t url opts
       (case retries of None \<Rightarrow> 3 | Some n \<Rightarrow> n)
       (case retryDelay of None \<Rightarrow> Fin 500 | Some d \<Rightarrow> d) s"

definition request_url :: "jsstring \<Rightarrow> jsstring \<Rightarrow> jsstring" where
  \<comment> \<open>the template literal \<^verbatim>\<open>`${this.endpoint}/${path}`\<close>\<close>
  "request_url e path = e @ lit ''/'' @ path"

section \<open>Text: decoding, lines, prefixes\<close>

text \<open>
  \<^verbatim>\<open>TextDecoder.decode\<close> without options: the UTF-8 decoder of the Encoding standard, each
  call a fresh decoder that is flushed at the end of the chunk, replaces malformed input
  by U+FFFD and drops one leading byte order mark. The decoder's state is the code point
  under construction, the number of continuation bytes still needed and the bounds for the
  next byte.
\<close>

record utf8_decoder =
  code_point :: nat
  bytes_needed :: nat
  lower_boundary :: nat
  upper_boundary :: nat

definition utf8_fresh :: utf8_decoder where
  "utf8_fresh =
     \<lparr>code_point = 0, bytes_needed = 0, lower_boundary = 0x80, upper_boundary = 0xBF\<rparr>"

definition utf8_lead :: "nat \<Rightarrow> nat list \<times> utf8_decoder" where
  \<comment> \<open>the handler on a byte when no continuation byte is needed\<close>
  "utf8_lead n =
     (if n \<le> 0x7F then ([n], utf8_fresh)
      else if 0xC2 \<le> n \<and> n \<le> 0xDF then
        ([], \<lparr>code_point = n mod 32, bytes_needed = 1,
              lower_boundary = 0x80, upper_boundary = 0xBF\<rparr>)
      else if 0xE0 \<le> n \<and> n \<le> 0xEF then
        ([], \<lparr>code_point = n mod 16, bytes_needed = 2,
              lower_boundary = (if n = 0xE0 then 0xA0 else 0x80),
              upper_boundary = (if n = 0xED then 0x9F else 0xBF)\<rparr>)
      else if 0xF0 \<le> n \<and> n \<le> 0xF4 then
        ([], \<lparr>code_point = n mod 8, bytes_needed = 3,
              lower_boundary = (if n = 0xF0 then 0x90 else 0x80),
              upper_boundary = (if n = 0xF4 then 0x8F else 0xBF)\<rparr>)
      else ([0xFFFD], utf8_fresh))"

definition utf8_handler :: "utf8_decoder \<Rightarrow> byte \<Rightarrow> nat list \<times> utf8_decoder" where
  \<comment> \<open>one byte: the code points it completes and the next state; a byte out of bounds
      gives U+FFFD and is then handled again by the fresh decoder\<close>
  "utf8_handler d b =
     (let n = unat b in
      if bytes_needed d = 0 then utf8_lead n
      else if \<not> (lower_boundary d \<le> n \<and> n \<le> upper_boundary d) then
        (case utf8_lead n of (out, d') \<Rightarrow> (0xFFFD # out, d'))
      else if bytes_needed d = 1 then ([code_point d * 64 + n mod 64], utf8_fresh)
      else ([], \<lparr>code_point = code_point d * 64 + n mod 64,
                 bytes_needed = bytes_needed d - 1,
                 lower_boundary = 0x80, upper_boundary = 0xBF\<rparr>))"

fun utf8_run :: "utf8_decoder \<Rightarrow> byte list \<Rightarrow> nat list" where
  "utf8_run d [] = (if bytes_needed d \<noteq> 0 then [0xFFFD] else [])"
| "utf8_run d (b # bs) = (case utf8_handler d b of (out, d') \<Rightarrow> out @ utf8_run d' bs)"

definition utf16_units :: "nat \<Rightarrow> jsstring" where
  \<comment> \<open>a code point as the code units of a JavaScript string\<close>
  "utf16_units cp =
     (if cp < 0x10000 then [of_nat cp]
      else [of_nat (0xD800 + (cp - 0x10000) div 0x400),
            of_nat (0xDC00 + (cp - 0x10000) mod 0x400)])"

definition strip_bom :: "nat list \<Rightarrow> nat list" where
  "strip_bom cps = (case cps of [] \<Rightarrow> [] | c # cs \<Rightarrow> if c = 0xFEFF then cs else c # cs)"

definition utf8_decode :: "byte list \<Rightarrow> jsstring" where
  "utf8_decode bs = concat (map utf16_units (strip_bom (utf8_run utf8_fresh bs)))"

fun textDecoder_decode :: "jsval \<Rightarrow> error + jsstring" where
  "textDecoder_decode (JBytes bs) = Inr (utf8_decode bs)"
| "textDecoder_decode JUndefined = Inr []"
| "textDecoder_decode _ = Inl TypeError"

fun split_nl :: "jsstring \<Rightarrow> jsstring list" where
  \<comment> \<open>\<^verbatim>\<open>s.split('\n')\<close>: the pieces between line feeds; one empty piece for the empty string\<close>
  "split_nl [] = [[]]"
| "split_nl (c # cs) =
     (if c = 0x0A then [] # split_nl cs
      else (case split_nl cs of [] \<Rightarrow> [[c]] | l # ls \<Rightarrow> (c # l) # ls))"

definition startsWith :: "jsstring \<Rightarrow> jsstring \<Rightarrow> bool" where
  "startsWith s p = (take (length p) s = p)"

definition substring :: "nat \<Rightarrow> jsstring \<Rightarrow> jsstring" where
  \<comment> \<open>\<^verbatim>\<open>s.substring(n)\<close>: from index n to the end, empty when n is past the end\<close>
  "substring n s = drop n s"

definition is_space :: "code_unit \<Rightarrow> bool" where
  \<comment> \<open>white space and line terminators of ECMAScript, as \<^verbatim>\<open>trim\<close> removes them\<close>
  "is_space c = (c \<in> set [0x09, 0x0A, 0x0B, 0x0C, 0x0D, 0x20, 0xA0, 0x1680, 0x2000, 0x2001,
     0x2002, 0x2003, 0x2004, 0x2005, 0x2006, 0x2007, 0x2008, 0x2009, 0x200A, 0x2028, 0x2029,
     0x202F, 0x205F, 0x3000, 0xFEFF])"

definition trim :: "jsstring \<Rightarrow> jsstring" where
  "trim s = rev (dropWhile is_space (rev (dropWhile is_space s)))"


section \<open>The stream decoder\<close>

text \<open>
  \<^verbatim>\<open>JSON.parse\<close> belongs to the platform: the decoder takes it as the parameter \<open>parse\<close>,
  which returns the parsed value or the exception. A generator's run is the list of the
  values it yields, in order, and the exception that ends it, if one does.
\<close>

type_synonym parser = "jsstring \<Rightarrow> error + jsval"
type_synonym events = "jsval list \<times> error option"

definition chunkData :: "jsstring \<Rightarrow> jsstring" where
  \<comment> \<open>\<^verbatim>\<open>chunkLine.substring(6).trim()\<close>\<close>
  "chunkData chunkLine = trim (substring 6 chunkLine)"

fun chunkLines_loop :: "parser \<Rightarrow> jsstring list \<Rightarrow> events" where
  \<comment> \<open>\<^verbatim>\<open>for (const chunkLine of chunkLines)\<close>\<close>
  "chunkLines_loop parse [] = ([], None)"
| "chunkLines_loop parse (chunkLine # rest) =
     (if startsWith chunkLine (lit ''data:'') then
        (if chunkData chunkLine \<noteq> lit ''[DONE]'' then
           (case parse (chunkData chunkLine) of
              Inl e \<Rightarrow> ([], Some e)
            | Inr v \<Rightarrow> (case chunkLines_loop parse rest of (evs, r) \<Rightarrow> (v # evs, r)))
         else chunkLines_loop parse rest)
      else chunkLines_loop parse rest)"

fun chunks_loop :: "parser \<Rightarrow> jsval list \<Rightarrow> events" where
  \<comment> \<open>the body of \<^verbatim>\<open>for await (const chunk of response)\<close>, over the values iterated\<close>
  "chunks_loop parse [] = ([], None)"
| "chunks_loop parse (chunk # rest) =
     (case textDecoder_decode chunk of
        Inl e \<Rightarrow> ([], Some e)
      | Inr chunkString \<Rightarrow>
          (case chunkLines_loop parse (split_nl chunkString) of
             (evs, Some e) \<Rightarrow> (evs, Some e)
           | (evs, None) \<Rightarrow> (case chunks_loop parse rest of (evs', r) \<Rightarrow> (evs @ evs', r))))"

fun code_points :: "jsstring \<Rightarrow> jsstring list" where
  \<comment> \<open>the string iterator: one item per code point, a surrogate pair being one item\<close>
  "code_points (c # d # cs) =
     (if 0xD800 \<le> c \<and> c \<le> 0xDBFF \<and> 0xDC00 \<le> d \<and> d \<le> 0xDFFF
      then [c, d] # code_points cs else [c] # code_points (d # cs))"
| "code_points [c] = [[c]]"
| "code_points [] = []"

fun iterate :: "jsval \<Rightarrow> error + jsval list" where
  \<comment> \<open>what \<^verbatim>\<open>for await ... of\<close> iterates: a byte stream gives its chunks, an array its
      elements, a string its code points, a \<^verbatim>\<open>Uint8Array\<close> its bytes as numbers; nothing
      else is iterable\<close>
  "iterate (JStream cs) = Inr (map JBytes cs)"
| "iterate (JArr xs) = Inr xs"
| "iterate (JBytes bs) = Inr (map (\<lambda>b. JNum (real (unat b))) bs)"
| "iterate (JStr s) = Inr (map JStr (code_points s))"
| "iterate _ = Inl TypeError"

definition for_await :: "parser \<Rightarrow> jsval \<Rightarrow> events" where
  \<comment> \<open>lines 185 to 199 of \<^verbatim>\<open>chatStream\<close>: the loop over \<^verbatim>\<open>response\<close>\<close>
  "for_await parse response =
     (case iterate response of Inl e \<Rightarrow> ([], Some e) | Inr items \<Rightarrow> chunks_loop parse items)"

section \<open>The client\<close>

record client =
  endpoint :: jsstring
  apiKey :: "jsstring option"   \<comment> \<open>\<open>None\<close> is \<^verbatim>\<open>undefined\<close>\<close>

definition MistralClient :: "jsstring option \<Rightarrow> jsstring option \<Rightarrow> jsstring option \<Rightarrow> client" where
  \<comment> \<open>the constructor; the first argument is \<^verbatim>\<open>process.env.MISTRAL_API_KEY\<close>, the
      others are the parameters, \<open>None\<close> for one left out\<close>
  "MistralClient env_key key ep =
     \<lparr>endpoint = (case ep of None \<Rightarrow> ENDPOINT | Some e \<Rightarrow> e),
      apiKey = (case key of None \<Rightarrow> env_key | Some k \<Rightarrow> Some k)\<rparr>"

definition template :: "jsstring option \<Rightarrow> jsstring" where
  \<comment> \<open>a value inside a template literal\<close>
  "template v = (case v of None \<Rightarrow> lit ''undefined'' | Some s \<Rightarrow> s)"

definition response_json :: "parser \<Rightarrow> response \<Rightarrow> error + jsval" where
  \<comment> \<open>\<^verbatim>\<open>response.json()\<close>: the whole body is read, decoded and parsed\<close>
  "response_json parse r = parse (utf8_decode (concat (chunks r)))"

definition http_space :: "code_unit \<Rightarrow> bool" where
  "http_space c = (c \<in> set [0x09, 0x0A, 0x0D, 0x20])"

definition header_value :: "jsstring \<Rightarrow> jsstring" where
  \<comment> \<open>\<^verbatim>\<open>new Headers\<close> removes the white space at both ends of a value\<close>
  "header_value v = rev (dropWhile http_space (rev (dropWhile http_space v)))"

text \<open>
  The key is taken to be a legal header value, with no NUL, CR or LF inside and no character
  above U+00FF: \<^verbatim>\<open>new Headers\<close> throws on any other, before a request is made.
\<close>

definition request_options :: "client \<Rightarrow> (jsval \<Rightarrow> jsval) \<Rightarrow> jsstring \<Rightarrow> jsval \<Rightarrow> options" where
  "request_options c stringify m request =
     \<lparr>http_method = m,
      headers = [(lit ''Authorization'', header_value (lit ''Bearer '' @ template (apiKey c))),
                 (lit ''Content-Type'', header_value (lit ''application/json''))],
      body = stringify request\<rparr>"

definition request ::
  "client \<Rightarrow> transport \<Rightarrow> parser \<Rightarrow> (jsval \<Rightarrow> jsval) \<Rightarrow> jsstring \<Rightarrow> jsstring \<Rightarrow> jsval
    \<Rightarrow> int option \<Rightarrow> net \<Rightarrow> (error + jsval) \<times> net" where
  \<comment> \<open>\<^verbatim>\<open>_request(method, path, request, retries = 3)\<close>; \<open>stringify\<close> is \<^verbatim>\<open>JSON.stringify\<close>\<close>
  "request c t parse stringify m path req retries s =
     (case fetchWithRetry_opt t (request_url (endpoint c) path)
             (request_options c stringify m req)
             (Some (case retries of None \<Rightarrow> 3 | Some n \<Rightarrow> n)) None s of
        (Inl e, s') \<Rightarrow> (Inl e, s')
      | (Inr response, s') \<Rightarrow> (response_json parse response, s'))"

definition nullish :: "jsval \<Rightarrow> jsval" where
  \<comment> \<open>\<^verbatim>\<open>v ?? undefined\<close>\<close>
  "nullish v = (if v = JNull \<or> v = JUndefined then JUndefined else v)"

definition makeChatCompletionRequest ::
  "jsval \<Rightarrow> jsval \<Rightarrow> jsval \<Rightarrow> jsval \<Rightarrow> jsval \<Rightarrow> jsval \<Rightarrow> jsval \<Rightarrow> jsval \<Rightarrow> jsval" where
  "makeChatCompletionRequest model messages temperature maxTokens topP randomSeed stream safeMode =
     JObj [(lit ''model'', model),
           (lit ''messages'', messages),
           (lit ''temperature'', nullish temperature),
           (lit ''max_tokens'', nullish maxTokens),
           (lit ''top_p'', nullish topP),
           (lit ''random_seed'', nullish randomSeed),
           (lit ''stream'', nullish stream),
           (lit ''safe_prompt'', nullish safeMode)]"

record chat_params =
  model :: jsval
  messages :: jsval
  temperature :: jsval
  maxTokens :: jsval
  topP :: jsval
  randomSeed :: jsval
  safeMode :: jsval

definition chat ::
  "client \<Rightarrow> transport \<Rightarrow> parser \<Rightarrow> (jsval \<Rightarrow> jsval) \<Rightarrow> chat_params \<Rightarrow> net
    \<Rightarrow> (error + jsval) \<times> net" where
  "chat c t parse stringify p s =
     request c t parse stringify (lit ''post'') (lit ''v1/chat/completions'')
       (makeChatCompletionRequest (model p) (messages p) (temperature p) (maxTokens p) (topP p)
          (randomSeed p) (JBool False) (safeMode p))
       None s"

definition chatStream ::
  "client \<Rightarrow> transport \<Rightarrow> parser \<Rightarrow> (jsval \<Rightarrow> jsval) \<Rightarrow> chat_params \<Rightarrow> net \<Rightarrow> events \<times> net" where
  "chatStream c t parse stringify p s =
     (case request c t parse stringify (lit ''post'') (lit ''v1/chat/completions'')
             (makeChatCompletionRequest (model p) (messages p) (temperature p) (maxTokens p)
                (topP p) (randomSeed p) (JBool True) (safeMode p))
             None s of
        (Inl e, s') \<Rightarrow> (([], Some e), s')
      | (Inr response, s') \<Rightarrow> (for_await parse response, s'))"

section \<open>Notions used to state the properties\<close>

fun retriable :: "fetch_outcome \<Rightarrow> bool" where
  \<comment> \<open>an attempt that fails retriably: an exception, or a response with a retry status\<close>
  "retriable (Rejected e) = True"
| "retriable (Resolved r) = (status r \<in> set RETRY_STATUS_CODES)"

definition round_trips :: "jsstring \<Rightarrow> options \<Rightarrow> number \<Rightarrow> nat \<Rightarrow> net" where
  \<comment> \<open>n attempts, the k-th followed by a wait of d doubled k times\<close>
  "round_trips url opts d n =
     concat (map (\<lambda>k. [Fetch url opts, Delay ((times_two ^^ k) d)]) [0..<n])"

definition overflowed :: "real \<Rightarrow> nat \<Rightarrow> number" where
  \<comment> \<open>\<open>d * 2 ^ k\<close> as a JavaScript number: an infinity once it reaches the threshold\<close>
  "overflowed d k =
     (if \<bar>d\<bar> * 2 ^ k < overflow_threshold then Fin (d * 2 ^ k)
      else if 0 < d then PosInf else NegInf)"

definition last_attempt_decides ::
  "transport \<Rightarrow> jsstring \<Rightarrow> options \<Rightarrow> int \<Rightarrow> net \<Rightarrow> (error + response) \<times> net \<Rightarrow> bool" where
  "last_attempt_decides t url opts retries s out =
     (case out of (res, s') \<Rightarrow>
        attempts s < attempts s' \<and>
        (case t (attempts s' - 1) url opts of
           Resolved r \<Rightarrow> res = Inr r
         | Rejected e \<Rightarrow> res = Inl e \<and> retries - int (attempts s' - 1 - attempts s) \<le> 0))"

definition utf8_inv :: "utf8_decoder \<Rightarrow> bool" where
  \<comment> \<open>between two bytes, a decoder that waits for a continuation byte accepts no ASCII byte\<close>
  "utf8_inv d = (bytes_needed d = 0 \<or> 0x80 \<le> lower_boundary d)"

definition then_run :: "events \<Rightarrow> events \<Rightarrow> events" where
  \<comment> \<open>one part of a generator's run followed by the next: an exception ends the run\<close>
  "then_run a b =
     (case a of (evs, Some e) \<Rightarrow> (evs, Some e)
              | (evs, None) \<Rightarrow> (case b of (evs', r) \<Rightarrow> (evs @ evs', r)))"

definition stream_lines :: "byte list list \<Rightarrow> jsstring list" where
  \<comment> \<open>the lines the decoder sees: those of each chunk's text, chunk after chunk\<close>
  "stream_lines cs = concat (map (\<lambda>c. split_nl (utf8_decode c)) cs)"

definition is_frame :: "jsstring \<Rightarrow> bool" where
  "is_frame l = startsWith l (lit ''data:'')"

definition spec_payload :: "jsstring \<Rightarrow> jsstring" where
  \<comment> \<open>the payload of a frame by the framing rule: the line without the five characters
      \<^verbatim>\<open>data:\<close>, without the white space around the rest\<close>
  "spec_payload l = trim (substring 5 l)"

definition fails :: "parser \<Rightarrow> jsstring \<Rightarrow> bool" where
  \<comment> \<open>a frame that is not the sentinel and whose payload does not parse\<close>
  "fails parse l =
     (is_frame l \<and> chunkData l \<noteq> lit ''[DONE]'' \<and>
      (case parse (chunkData l) of Inl e \<Rightarrow> True | Inr v \<Rightarrow> False))"

definition line_event :: "parser \<Rightarrow> jsstring \<Rightarrow> jsval list" where
  \<comment> \<open>the event of a line: the parsed payload of a frame that is not the sentinel\<close>
  "line_event parse l =
     (if is_frame l \<and> chunkData l \<noteq> lit ''[DONE]''
      then (case parse (chunkData l) of Inl e \<Rightarrow> [] | Inr v \<Rightarrow> [v]) else [])"

definition emitted :: "parser \<Rightarrow> jsstring list \<Rightarrow> jsval list" where
  "emitted parse ls = concat (map (line_event parse) ls)"

definition sample_parse :: parser where
  \<comment> \<open>\<^verbatim>\<open>JSON.parse\<close> on the texts of the examples: three objects; every other text that an
      example hands to it is not JSON\<close>
  "sample_parse text =
     (if text = lit ''{\"a\":1}'' then Inr (JObj [(lit ''a'', JNum 1)])
      else if text = lit ''{\"a\":2}'' then Inr (JObj [(lit ''a'', JNum 2)])
      else if text = lit ''{}'' then Inr (JObj [])
      else Inl SyntaxError)"

fun fetches :: "net \<Rightarrow> (jsstring \<times> options) list" where
  \<comment> \<open>the requests of a trace: url and options of each \<^verbatim>\<open>fetch\<close> call\<close>
  "fetches [] = []"
| "fetches (Fetch url opts # s) = (url, opts) # fetches s"
| "fetches (Delay ms # s) = fetches s"

fun field :: "jsval \<Rightarrow> jsstring \<Rightarrow> jsval" where
  \<comment> \<open>reading a property of an object\<close>
  "field (JObj kvs) k = (case map_of kvs k of None \<Rightarrow> JUndefined | Some v \<Rightarrow> v)"
| "field v k = JUndefined"

definition provided :: "jsval \<Rightarrow> bool" where
  \<comment> \<open>a parameter the caller gave: neither \<^verbatim>\<open>undefined\<close> nor \<^verbatim>\<open>null\<close>\<close>
  "provided v = (v \<noteq> JNull \<and> v \<noteq> JUndefined)"

definition chat_request :: "bool \<Rightarrow> chat_params \<Rightarrow> jsval" where
  \<comment> \<open>the call of \<^verbatim>\<open>_makeChatCompletionRequest\<close> in \<^verbatim>\<open>chat\<close> and in \<^verbatim>\<open>chatStream\<close>\<close>
  "chat_request streaming p =
     makeChatCompletionRequest (model p) (messages p) (temperature p) (maxTokens p) (topP p)
       (randomSeed p) (JBool streaming) (safeMode p)"

definition chat_url :: "client \<Rightarrow> jsstring" where
  "chat_url c = request_url (endpoint c) (lit ''v1/chat/completions'')"

fun is_json :: "jsval \<Rightarrow> bool" where
  \<comment> \<open>the values \<^verbatim>\<open>JSON.parse\<close> can return\<close>
  "is_json JNull = True"
| "is_json (JBool b) = True"
| "is_json (JNum x) = True"
| "is_json (JStr s) = True"
| "is_json (JArr xs) = (\<forall>x \<in> set xs. is_json x)"
| "is_json (JObj kvs) = (\<forall>kv \<in> set kvs. is_json (snd kv))"
| "is_json JUndefined = False"
| "is_json (JBytes bs) = False"
| "is_json (JStream cs) = False"

text \<open>Concrete inputs for the examples.\<close>

definition models_url :: jsstring where
  "models_url = lit ''https://api.mistral.ai/v1/models''"

definition get_options :: options where
  "get_options = \<lparr>http_method = lit ''get'', headers = [], body = JUndefined\<rparr>"

definition unavailable :: response where
  "unavailable = \<lparr>status = 503, chunks = []\<rparr>"

definition not_found :: response where
  "not_found = \<lparr>status = 404, chunks = [bytes_of ''{}'']\<rparr>"

definition always_503 :: transport where
  "always_503 i url opts = Resolved unavailable"

definition busy_then_down :: transport where
  \<comment> \<open>two responses with status 503, then the connection fails\<close>
  "busy_then_down i url opts = (if i < 2 then Resolved unavailable else Rejected (FetchError ''down''))"

definition answers_404 :: transport where
  "answers_404 i url opts = Resolved not_found"

definition scenario :: "byte list" where
  "scenario =
     bytes_of ''data: {\"a\":1}\<newline>\<newline>data: {\"a\":2}\<newline>\<newline>data: [DONE]\<newline>''"

definition first_piece :: "byte list" where
  "first_piece = bytes_of ''data: {\"a\"''"

definition second_piece :: "byte list" where
  "second_piece = bytes_of '':1}\<newline>''"

definition first_frame :: "byte list" where
  "first_frame = bytes_of ''data: {\"a\":1}\<newline>''"

definition second_frame :: "byte list" where
  "second_frame = bytes_of ''data: {\"a\":2}\<newline>''"

definition sample_client :: client where
  "sample_client = MistralClient (Some (lit ''key'')) None None"

definition sample_params :: chat_params where
  "sample_params =
     \<lparr>model = JStr (lit ''mistral-tiny''),
      messages =
        JArr [JObj [(lit ''role'', JStr (lit ''user'')), (lit ''content'', JStr (lit ''Hi''))]],
      temperature = JNum 0.5, maxTokens = JNum 100, topP = JNum 0.9, randomSeed = JNum 42,
      safeMode = JBool True\<rparr>"

definition as_is :: "jsval \<Rightarrow> jsval" where
  \<comment> \<open>stands for \<^verbatim>\<open>JSON.stringify\<close> in the examples: the value to serialise, unchanged\<close>
  "as_is v = v"

definition sse_response :: response where
  "sse_response =
     \<lparr>status = 200,
      chunks = [bytes_of ''data: {\"a\":1}\<newline>\<newline>'', bytes_of ''data: [DONE]\<newline>'']\<rparr>"

definition streams_200 :: transport where
  "streams_200 i url opts = Resolved sse_response"

section \<open>Properties of the retrying transport\<close>


lemma retry_status_not_ok: "status r \<in> set RETRY_STATUS_CODES \<Longrightarrow> \<not> ok r"
  by (auto simp: RETRY_STATUS_CODES_def ok_def)

lemma attempts_append [simp]: "attempts (s @ s') = attempts s + attempts s'"
  by (simp add: attempts_def)

lemma attempts_Fetch [simp]: "attempts [Fetch url opts] = 1"
  by (simp add: attempts_def)

lemma waits_append [simp]: "waits (s @ s') = waits s @ waits s'"
  by (induction s rule: waits.induct) auto

lemma fetchWithRetry_unfold:
  "fetchWithRetry t url opts retries d s =
     (case t (attempts s) url opts of
        Resolved r \<Rightarrow>
          if ok r \<or> status r \<notin> set RETRY_STATUS_CODES \<or> retries \<le> 0
          then (Inr r, s @ [Fetch url opts])
          else fetchWithRetry t url opts (retries - 1) (times_two d) (s @ [Fetch url opts, Delay d])
      | Rejected e \<Rightarrow>
          if retries \<le> 0 then (Inl e, s @ [Fetch url opts])
          else fetchWithRetry t url opts (retries - 1) (times_two d) (s @ [Fetch url opts, Delay d]))"
  by (subst fetchWithRetry.simps) (simp add: fetch_def delay_def split: fetch_outcome.splits)

lemma fetchWithRetry_retriable_step:
  assumes "retriable (t (attempts s) url opts)" and "0 < retries"
  shows "fetchWithRetry t url opts retries d s =
         fetchWithRetry t url opts (retries - 1) (times_two d) (s @ [Fetch url opts, Delay d])"
  using assms
  by (subst fetchWithRetry_unfold) (auto simp: retry_status_not_ok split: fetch_outcome.splits)

lemma fetchWithRetry_retriable_last:
  assumes "retriable (t (attempts s) url opts)" and "retries \<le> 0"
  shows "snd (fetchWithRetry t url opts retries d s) = s @ [Fetch url opts]"
  using assms
  by (subst fetchWithRetry_unfold) (auto split: fetch_outcome.splits)

lemma round_trips_0: "round_trips url opts d 0 = []"
  by (simp add: round_trips_def)

lemma round_trips_Suc:
  "round_trips url opts d (Suc n) =
     Fetch url opts # Delay d # round_trips url opts (times_two d) n"
proof -
  have "map (\<lambda>k. [Fetch url opts, Delay ((times_two ^^ k) d)]) [0..<Suc n] =
        [Fetch url opts, Delay d] #
        map (\<lambda>k. [Fetch url opts, Delay ((times_two ^^ k) (times_two d))]) [0..<n]"
    by (simp add: upt_conv_Cons map_Suc_upt[symmetric] del: upt_Suc)
       (simp add: funpow_swap1)
  then show ?thesis
    unfolding round_trips_def by simp
qed

lemma attempts_round_trips [simp]: "attempts (round_trips url opts d n) = n"
  by (induction n) (simp_all add: round_trips_def attempts_def)

lemma waits_round_trips [simp]:
  "waits (round_trips url opts d n) = map (\<lambda>k. (times_two ^^ k) d) [0..<n]"
  by (induction n) (simp_all add: round_trips_def)

lemma all_retriable_trace:
  assumes "\<forall>i u p. retriable (t i u p)"
  shows "snd (fetchWithRetry t url opts (int n) d s) =
         s @ round_trips url opts d n @ [Fetch url opts]"
proof (induction n arbitrary: d s)
  case 0
  show ?case
    using fetchWithRetry_retriable_last[of t s url opts 0 d] assms
    by (simp add: round_trips_def)
next
  case (Suc n)
  have step: "fetchWithRetry t url opts (int (Suc n)) d s =
         fetchWithRetry t url opts (int n) (times_two d) (s @ [Fetch url opts, Delay d])"
    using fetchWithRetry_retriable_step[of t s url opts "int (Suc n)" d] assms by simp
  show ?case
    unfolding step Suc.IH round_trips_Suc by simp
qed

lemma last_attempt_decides_later:
  assumes "last_attempt_decides t url opts (retries - 1) (s @ [Fetch url opts, Delay d]) out"
  shows "last_attempt_decides t url opts retries s out"
proof -
  have "attempts (s @ [Fetch url opts, Delay d]) = Suc (attempts s)"
    by (simp add: attempts_def)
  then show ?thesis
    using assms unfolding last_attempt_decides_def
    by (auto split: prod.splits fetch_outcome.splits)
qed

lemma fetchWithRetry_last_attempt:
  "nat retries = n \<Longrightarrow>
   last_attempt_decides t url opts retries s (fetchWithRetry t url opts retries d s)"
proof (induction n arbitrary: retries d s)
  case 0
  then have "retries \<le> 0" by simp
  then show ?case
    by (subst fetchWithRetry_unfold)
       (simp add: last_attempt_decides_def split: fetch_outcome.splits)
next
  case (Suc n)
  then have pos: "\<not> retries \<le> 0" and n: "nat (retries - 1) = n" by simp_all
  have ih: "last_attempt_decides t url opts retries s
              (fetchWithRetry t url opts (retries - 1) (times_two d) (s @ [Fetch url opts, Delay d]))"
    by (rule last_attempt_decides_later) (rule Suc.IH [OF n])
  show ?case
  proof (cases "t (attempts s) url opts")
    case (Rejected e)
    then show ?thesis using pos ih by (subst fetchWithRetry_unfold) simp
  next
    case (Resolved r)
    show ?thesis
    proof (cases "ok r \<or> status r \<notin> set RETRY_STATUS_CODES")
      case True
      then show ?thesis using Resolved
        by (subst fetchWithRetry_unfold) (auto simp: last_attempt_decides_def)
    next
      case False
      then show ?thesis using Resolved pos ih by (subst fetchWithRetry_unfold) simp
    qed
  qed
qed

lemma times_two_iter:
  assumes "\<bar>d\<bar> < overflow_threshold"
  shows "(times_two ^^ k) (Fin d) = overflowed d k"
proof (induction k)
  case 0
  show ?case using assms by (simp add: overflowed_def)
next
  case (Suc k)
  define x where "x = d * 2 ^ k"
  have a: "\<bar>d\<bar> * 2 ^ k = \<bar>x\<bar>" "\<bar>d\<bar> * 2 ^ Suc k = \<bar>x\<bar> * 2" "d * 2 ^ Suc k = x * 2"
    by (simp_all add: x_def abs_mult)
  have sign: "(0 < d) = (0 < x)"
    by (simp add: x_def zero_less_mult_iff)
  have "(times_two ^^ Suc k) (Fin d) = times_two (overflowed d k)"
    using Suc.IH by simp
  also have "\<dots> = times_two (if \<bar>x\<bar> < overflow_threshold then Fin x
                              else if 0 < x then PosInf else NegInf)"
    by (simp only: overflowed_def a sign x_def [symmetric])
  also have "\<dots> = (if \<bar>x\<bar> * 2 < overflow_threshold then Fin (x * 2)
                   else if 0 < x then PosInf else NegInf)"
    by auto
  also have "\<dots> = overflowed d (Suc k)"
    by (simp only: overflowed_def a sign)
  finally show ?case .
qed

text \<open>
  C1, as stated, fails: the delay is a JavaScript number, and doubling it overflows. With a
  first delay of \<open>2 ^ 1023\<close> ms and two retries, the second wait is \<^verbatim>\<open>Infinity\<close>
  and not \<open>2 ^ 1023 * 2\<close>.
\<close>

theorem second_wait_overflows:
  "waits (snd (fetchWithRetry always_503 models_url get_options 2 (Fin (2 ^ 1023)) [])) =
     [Fin (2 ^ 1023), PosInf]
   \<and> PosInf \<noteq> Fin (2 ^ 1023 * 2 ^ 1)"
  by (simp add: fetchWithRetry_unfold always_503_def unavailable_def ok_def
        RETRY_STATUS_CODES_def attempts_def overflow_threshold_def)

text \<open>
  C1, amended. When every attempt fails retriably (an exception, or a response whose status
  is one of 429, 500, 502, 503, 504), \<open>retries\<close> is an integer N from 0 to \<open>2 ^ 53\<close> and
  the first delay is a finite number d, the call makes exactly N + 1 attempts, and between
  attempt k and attempt k + 1 it waits \<open>d * 2 ^ k\<close> as long as that is below \<open>2 ^ 1024\<close>
  in magnitude, and an infinity of the sign of d from then on. The multiplier is the
  constant 2 of the source.
\<close>

theorem fetchWithRetry_all_retriable:
  assumes "\<forall>i u p. retriable (t i u p)" and "0 \<le> N" and "N \<le> 2 ^ 53"
    and "\<bar>d\<bar> < 2 ^ 1024"
  shows "snd (fetchWithRetry t url opts N (Fin d) s) =
           s @ round_trips url opts (Fin d) (nat N) @ [Fetch url opts]
       \<and> attempts (snd (fetchWithRetry t url opts N (Fin d) s)) = attempts s + nat N + 1
       \<and> waits (snd (fetchWithRetry t url opts N (Fin d) s)) =
           waits s @ map (\<lambda>k. if \<bar>d\<bar> * 2 ^ k < 2 ^ 1024 then Fin (d * 2 ^ k)
                               else if 0 < d then PosInf else NegInf) [0..<nat N]"
proof -
  have "snd (fetchWithRetry t url opts (int (nat N)) (Fin d) s) =
           s @ round_trips url opts (Fin d) (nat N) @ [Fetch url opts]"
    using assms(1) by (rule all_retriable_trace)
  then have tr: "snd (fetchWithRetry t url opts N (Fin d) s) =
           s @ round_trips url opts (Fin d) (nat N) @ [Fetch url opts]"
    using assms(2) by simp
  have "map (\<lambda>k. (times_two ^^ k) (Fin d)) [0..<nat N] =
        map (\<lambda>k. if \<bar>d\<bar> * 2 ^ k < 2 ^ 1024 then Fin (d * 2 ^ k)
                  else if 0 < d then PosInf else NegInf) [0..<nat N]"
    using times_two_iter [of d] assms(4)
    by (simp only: overflowed_def overflow_threshold_def)
  then show ?thesis
    unfolding tr by simp
qed

theorem fetchWithRetry_all_retriable_witness:
  "snd (fetchWithRetry always_503 models_url get_options 2 (Fin 100) []) =
       [Fetch models_url get_options, Delay (Fin 100), Fetch models_url get_options,
        Delay (Fin 200), Fetch models_url get_options]
   \<and> attempts (snd (fetchWithRetry always_503 models_url get_options 2 (Fin 100) [])) = 3
   \<and> waits (snd (fetchWithRetry always_503 models_url get_options 2 (Fin 100) [])) =
       [Fin 100, Fin 200]"
proof -
  have h: "\<forall>i u p. retriable (always_503 i u p)"
    by (simp add: always_503_def unavailable_def RETRY_STATUS_CODES_def)
  have b: "(0::int) \<le> 2" "(2::int) \<le> 2 ^ 53" "\<bar>100::real\<bar> < 2 ^ 1024"
    by simp_all
  show ?thesis
    using fetchWithRetry_all_retriable [OF h b, of models_url get_options "[]"]
    by (simp add: numeral_2_eq_2 round_trips_Suc round_trips_0 attempts_def
          overflow_threshold_def)
qed

text \<open>
  C5. A response whose status is not one of 429, 500, 502, 503, 504, a success included, ends
  the call at once, whatever \<open>retries\<close> is: one attempt, no wait, and the response itself
  is the result.
\<close>

theorem fetchWithRetry_terminal_status:
  assumes "t (attempts s) url opts = Resolved r" and "status r \<notin> set RETRY_STATUS_CODES"
  shows "fetchWithRetry t url opts retries retryDelay s = (Inr r, s @ [Fetch url opts])"
  using assms by (subst fetchWithRetry_unfold) simp

theorem fetchWithRetry_terminal_status_witness:
  "answers_404 (attempts []) models_url get_options = Resolved not_found
   \<and> status not_found \<notin> set RETRY_STATUS_CODES
   \<and> fetchWithRetry answers_404 models_url get_options 3 (Fin 500) [] =
       (Inr not_found, [Fetch models_url get_options])"
proof -
  have a: "answers_404 (attempts []) models_url get_options = Resolved not_found"
    by (simp add: answers_404_def)
  have b: "status not_found \<notin> set RETRY_STATUS_CODES"
    by (simp add: not_found_def RETRY_STATUS_CODES_def)
  show ?thesis
    using a b
      fetchWithRetry_terminal_status
        [of answers_404 "[]" models_url get_options not_found 3 "Fin 500"]
    by simp
qed

text \<open>
  C10. A call ends with the outcome of its last attempt. If that attempt got a response,
  the response is the result, whatever its status. The call throws only if the last attempt
  threw, it throws that exception, and no retry was left at that attempt.
\<close>

theorem fetchWithRetry_error_only_from_last_rejection:
  "case fetchWithRetry t url opts retries retryDelay s of (res, s') \<Rightarrow>
     attempts s < attempts s' \<and>
     (case t (attempts s' - 1) url opts of
        Resolved r \<Rightarrow> res = Inr r
      | Rejected e \<Rightarrow> res = Inl e \<and> retries - int (attempts s' - 1 - attempts s) \<le> 0)"
  using fetchWithRetry_last_attempt [OF refl, of t url opts retries s retryDelay]
  by (simp add: last_attempt_decides_def)

theorem fetchWithRetry_error_only_from_last_rejection_witness:
  "fetchWithRetry busy_then_down models_url get_options 2 (Fin 100) [] =
     (Inl (FetchError ''down''),
      [Fetch models_url get_options, Delay (Fin 100), Fetch models_url get_options,
       Delay (Fin 200),
       Fetch models_url get_options])
   \<and> busy_then_down 2 models_url get_options = Rejected (FetchError ''down'')
   \<and> (2::int) - int (3 - 1 - 0) \<le> 0"
  using fetchWithRetry_error_only_from_last_rejection
          [where t = busy_then_down and url = models_url and opts = get_options
             and retries = 2 and retryDelay = "Fin 100" and s = "[]"]
  by (simp add: fetchWithRetry_unfold busy_then_down_def attempts_def unavailable_def ok_def
        RETRY_STATUS_CODES_def overflow_threshold_def)

text \<open>
  C8. A call that gives no retry settings gets 3 retries and a first wait of 500 ms, each
  wait twice the one before; \<^verbatim>\<open>_request\<close> called without \<open>retries\<close> passes 3 and no
  delay. A client constructed without an endpoint uses \<^verbatim>\<open>https://api.mistral.ai\<close>.
\<close>

theorem default_configuration:
  "fetchWithRetry_opt t url opts None None s = fetchWithRetry t url opts 3 (Fin 500) s
   \<and> request c t parse stringify m path req None s =
       (case fetchWithRetry t (request_url (endpoint c) path) (request_options c stringify m req)
               3 (Fin 500) s of
          (Inl e, s') \<Rightarrow> (Inl e, s')
        | (Inr r, s') \<Rightarrow> (response_json parse r, s'))
   \<and> ((\<forall>i u p. retriable (t i u p)) \<longrightarrow>
        snd (fetchWithRetry_opt t url opts None None s) =
          s @ [Fetch url opts, Delay (Fin 500), Fetch url opts, Delay (Fin 1000),
               Fetch url opts, Delay (Fin 2000), Fetch url opts])
   \<and> endpoint (MistralClient env_key key None) = lit ''https://api.mistral.ai''"
proof -
  have a: "fetchWithRetry_opt t url opts None None s = fetchWithRetry t url opts 3 (Fin 500) s"
    by (simp add: fetchWithRetry_opt_def)
  have b: "request c t parse stringify m path req None s =
       (case fetchWithRetry t (request_url (endpoint c) path) (request_options c stringify m req)
               3 (Fin 500) s of
          (Inl e, s') \<Rightarrow> (Inl e, s')
        | (Inr r, s') \<Rightarrow> (response_json parse r, s'))"
    by (simp add: request_def fetchWithRetry_opt_def)
  have c: "snd (fetchWithRetry_opt t url opts None None s) =
          s @ [Fetch url opts, Delay (Fin 500), Fetch url opts, Delay (Fin 1000),
               Fetch url opts, Delay (Fin 2000), Fetch url opts]" if "\<forall>i u p. retriable (t i u p)"
    using all_retriable_trace [OF that, of url opts 3 "Fin 500" s]
    by (simp add: a numeral_3_eq_3 round_trips_Suc round_trips_0 overflow_threshold_def)
  have d: "endpoint (MistralClient env_key key None) = lit ''https://api.mistral.ai''"
    by (simp add: MistralClient_def ENDPOINT_def)
  show ?thesis
    using a b c d by blast
qed

theorem default_configuration_witness:
  "(\<forall>i u p. retriable (always_503 i u p))
   \<and> snd (fetchWithRetry_opt always_503 models_url get_options None None []) =
       [Fetch models_url get_options, Delay (Fin 500), Fetch models_url get_options,
        Delay (Fin 1000), Fetch models_url get_options, Delay (Fin 2000),
        Fetch models_url get_options]
   \<and> endpoint (MistralClient None None None) = lit ''https://api.mistral.ai''"
proof -
  have h: "\<forall>i u p. retriable (always_503 i u p)"
    by (simp add: always_503_def unavailable_def RETRY_STATUS_CODES_def)
  show ?thesis
    using h default_configuration [where t = always_503 and url = models_url
        and opts = get_options and s = "[]" and env_key = None and key = None]
    by (simp add: fetchWithRetry_opt_def)
qed

section \<open>Properties of the stream decoder\<close>

lemma then_run_simps [simp]:
  "then_run (evs, Some e) b = (evs, Some e)"
  "then_run (evs, None) (evs', r) = (evs @ evs', r)"
  by (simp_all add: then_run_def)

lemma then_run_empty_left [simp]: "then_run ([], None) b = b"
  by (cases b) simp

lemma then_run_empty_right [simp]: "then_run a ([], None) = a"
  by (cases a rule: prod.exhaust) (auto simp: then_run_def split: option.splits)

lemma then_run_assoc: "then_run (then_run a b) c = then_run a (then_run b c)"
  by (auto simp: then_run_def split: prod.splits option.splits)

lemma chunkLines_loop_Cons:
  "chunkLines_loop parse (l # ls) =
     then_run (chunkLines_loop parse [l]) (chunkLines_loop parse ls)"
  by (auto simp: then_run_def split: sum.splits prod.splits option.splits)

lemma chunkLines_loop_append:
  "chunkLines_loop parse (xs @ ys) =
     then_run (chunkLines_loop parse xs) (chunkLines_loop parse ys)"
proof (induction xs)
  case Nil
  show ?case by simp
next
  case (Cons l xs)
  have "chunkLines_loop parse ((l # xs) @ ys) =
        then_run (chunkLines_loop parse [l]) (chunkLines_loop parse (xs @ ys))"
    using chunkLines_loop_Cons [of parse l "xs @ ys"] by simp
  also have "\<dots> = then_run (then_run (chunkLines_loop parse [l]) (chunkLines_loop parse xs))
                       (chunkLines_loop parse ys)"
    by (simp only: Cons.IH then_run_assoc)
  also have "\<dots> = then_run (chunkLines_loop parse (l # xs)) (chunkLines_loop parse ys)"
    using chunkLines_loop_Cons [of parse l xs] by simp
  finally show ?case .
qed

lemma chunks_loop_bytes:
  "chunks_loop parse (map JBytes cs) = chunkLines_loop parse (stream_lines cs)"
proof (induction cs)
  case Nil
  show ?case by (simp add: stream_lines_def)
next
  case (Cons c cs)
  have "chunks_loop parse (map JBytes (c # cs)) =
        then_run (chunkLines_loop parse (split_nl (utf8_decode c)))
                 (chunks_loop parse (map JBytes cs))"
    by (auto simp: then_run_def split: prod.splits option.splits)
  then show ?case
    using Cons.IH by (simp add: stream_lines_def chunkLines_loop_append)
qed

lemma for_await_stream:
  "for_await parse (JStream cs) = chunkLines_loop parse (stream_lines cs)"
  by (simp add: for_await_def chunks_loop_bytes)

lemma not_frame_skipped: "\<not> is_frame l \<Longrightarrow> chunkLines_loop parse [l] = ([], None)"
  by (simp add: is_frame_def)

lemma sentinel_skipped:
  "is_frame l \<Longrightarrow> chunkData l = lit ''[DONE]'' \<Longrightarrow> chunkLines_loop parse [l] = ([], None)"
  by (simp add: is_frame_def)

lemma empty_line_not_frame: "\<not> is_frame []"
  by (simp add: is_frame_def startsWith_def lit_def)

lemma chunkLines_loop_filter:
  "chunkLines_loop parse (filter is_frame ls) = chunkLines_loop parse ls"
proof (induction ls)
  case Nil
  show ?case by simp
next
  case (Cons l ls)
  show ?case
  proof (cases "is_frame l")
    case True
    then show ?thesis
      using Cons.IH chunkLines_loop_Cons [of parse l ls]
        chunkLines_loop_Cons [of parse l "filter is_frame ls"] by simp
  next
    case False
    then show ?thesis
      using Cons.IH chunkLines_loop_Cons [of parse l ls] not_frame_skipped [of l parse] by simp
  qed
qed

lemma chunkLines_loop_passing:
  "\<forall>l \<in> set ls. \<not> fails parse l \<Longrightarrow> chunkLines_loop parse ls = (emitted parse ls, None)"
proof (induction ls)
  case Nil
  show ?case by (simp add: emitted_def)
next
  case (Cons l ls)
  then have ih: "chunkLines_loop parse ls = (emitted parse ls, None)" and l: "\<not> fails parse l"
    by simp_all
  have "chunkLines_loop parse [l] = (line_event parse l, None)"
    using l by (auto simp: fails_def line_event_def is_frame_def split: sum.splits)
  then show ?case
    using ih chunkLines_loop_Cons [of parse l ls] by (simp add: emitted_def)
qed

lemma chunkLines_loop_failing:
  assumes "is_frame l" and "chunkData l \<noteq> lit ''[DONE]''" and "parse (chunkData l) = Inl e"
  shows "chunkLines_loop parse (l # ls) = ([], Some e)"
  using assms by (simp add: is_frame_def)


subsection \<open>The run in terms of the payload that the loop extracts\<close>

text \<open>
  With the payload as the loop computes it, \<^verbatim>\<open>substring(6).trim()\<close>: the run ends at the
  first frame whose payload does not parse, with the events of the lines before it; lines
  without the prefix and frames whose payload is \<^verbatim>\<open>[DONE]\<close> change nothing.
\<close>

lemma run_ends_at_first_failure:
  assumes "stream_lines cs = pre @ bad # post"
    and "\<forall>l \<in> set pre. \<not> fails parse l"
    and "is_frame bad" and "chunkData bad \<noteq> lit ''[DONE]''" and "parse (chunkData bad) = Inl e"
  shows "for_await parse (JStream cs) = (emitted parse pre, Some e)"
proof -
  have "chunkLines_loop parse (pre @ bad # post) =
        then_run (chunkLines_loop parse pre) (chunkLines_loop parse (bad # post))"
    by (rule chunkLines_loop_append)
  also have "\<dots> = then_run (emitted parse pre, None) ([], Some e)"
    using chunkLines_loop_passing [OF assms(2)]
      chunkLines_loop_failing [where l = bad and parse = parse and e = e and ls = post]
      assms(3-5)
    by simp
  finally have "chunkLines_loop parse (stream_lines cs) = (emitted parse pre, Some e)"
    using assms(1) by simp
  then show ?thesis
    by (simp add: for_await_stream)
qed

lemma lines_without_prefix_are_skipped:
  "for_await parse (JStream cs) = chunkLines_loop parse (filter is_frame (stream_lines cs))"
  by (simp add: for_await_stream chunkLines_loop_filter)

lemma extracted_sentinel_is_skipped:
  assumes "stream_lines cs = pre @ l # post" and "is_frame l" and "chunkData l = lit ''[DONE]''"
  shows "for_await parse (JStream cs) = chunkLines_loop parse (pre @ post)"
proof -
  have "chunkLines_loop parse [l] = ([], None)"
    using assms(2,3) by (rule sentinel_skipped)
  then have "chunkLines_loop parse (pre @ l # post) = chunkLines_loop parse (pre @ post)"
    using chunkLines_loop_Cons [of parse l post]
    by (simp add: chunkLines_loop_append)
  then show ?thesis
    using assms(1) by (simp add: for_await_stream)
qed

text \<open>
  The payload that the loop extracts is the payload of the framing rule exactly when the
  sixth character of the line, if there is one, is white space.
\<close>

lemma trim_leading_space: "is_space c \<Longrightarrow> trim (c # r) = trim r"
  by (simp add: trim_def)

lemma chunkData_agrees:
  assumes "length l \<le> 5 \<or> (5 < length l \<and> is_space (l ! 5))"
  shows "chunkData l = spec_payload l"
proof (cases "length l \<le> 5")
  case True
  then show ?thesis by (simp add: chunkData_def spec_payload_def substring_def)
next
  case False
  then have sp: "is_space (l ! 5)" and len: "5 < length l"
    using assms by simp_all
  have "drop 5 l = l ! 5 # drop 6 l"
    using len Cons_nth_drop_Suc [of 5 l] by simp
  then show ?thesis
    using sp by (simp add: chunkData_def spec_payload_def substring_def trim_leading_space)
qed

text \<open>
  C6, at the line \<^verbatim>\<open>data:[DONE]\<close>: it is a frame and its payload, the rest of the line
  after the prefix \<^verbatim>\<open>data:\<close>, is the sentinel. \<^verbatim>\<open>substring(6)\<close> removes six
  characters, so the loop compares \<^verbatim>\<open>DONE]\<close> with the sentinel, hands it to the parser,
  and the run throws. With a space after the colon the sentinel is skipped: the bytes
  \<^verbatim>\<open>data: {"a":1}\n\ndata: {"a":2}\n\ndata: [DONE]\n\<close> in one chunk give the two objects
  and no exception.
\<close>

theorem sentinel_without_space_throws:
  "is_frame (lit ''data:[DONE]'')
   \<and> spec_payload (lit ''data:[DONE]'') = lit ''[DONE]''
   \<and> chunkData (lit ''data:[DONE]'') = lit ''DONE]''
   \<and> for_await sample_parse (JStream [bytes_of ''data:[DONE]\<newline>'']) =
       ([], Some SyntaxError)
   \<and> for_await sample_parse (JStream [scenario]) =
       ([JObj [(lit ''a'', JNum 1)], JObj [(lit ''a'', JNum 2)]], None)"
  by (simp add: for_await_stream stream_lines_def scenario_def is_frame_def spec_payload_def
        utf8_decode_def utf8_handler_def utf8_lead_def utf8_fresh_def bytes_of_def strip_bom_def
        utf16_units_def startsWith_def chunkData_def substring_def trim_def is_space_def
        sample_parse_def lit_def)

text \<open>
  C7, at the line \<^verbatim>\<open>data:x{}\<close>: it is a frame, its payload \<^verbatim>\<open>x{}\<close> is not the sentinel
  and does not parse, so the run should end there with the parser's exception.
  \<^verbatim>\<open>substring(6)\<close> removes the \<^verbatim>\<open>x\<close> with the prefix, the loop parses \<^verbatim>\<open>{}\<close>, and
  the run yields the empty object and ends without an exception.
\<close>

theorem unparsable_payload_is_emitted:
  "is_frame (lit ''data:x{}'')
   \<and> spec_payload (lit ''data:x{}'') = lit ''x{}''
   \<and> spec_payload (lit ''data:x{}'') \<noteq> lit ''[DONE]''
   \<and> sample_parse (spec_payload (lit ''data:x{}'')) = Inl SyntaxError
   \<and> chunkData (lit ''data:x{}'') = lit ''{}''
   \<and> for_await sample_parse (JStream [bytes_of ''data:x{}\<newline>'']) = ([JObj []], None)"
  by (simp add: for_await_stream stream_lines_def is_frame_def spec_payload_def
        utf8_decode_def utf8_handler_def utf8_lead_def utf8_fresh_def bytes_of_def strip_bom_def
        utf16_units_def startsWith_def chunkData_def substring_def trim_def is_space_def
        sample_parse_def lit_def)

text \<open>
  C2, as stated, fails: the line \<^verbatim>\<open>data: {"a":1}\<close> cut inside its payload. Each chunk is
  split into lines by itself, so the first chunk ends in a frame that does not parse and the
  run throws; in one chunk the same bytes give one event.
\<close>

theorem two_chunks_differ_from_one:
  "for_await sample_parse (JStream [first_piece, second_piece]) = ([], Some SyntaxError)
   \<and> for_await sample_parse (JStream [first_piece @ second_piece]) =
       ([JObj [(lit ''a'', JNum 1)]], None)"
  by (simp add: for_await_stream stream_lines_def first_piece_def second_piece_def
        utf8_decode_def utf8_handler_def utf8_lead_def utf8_fresh_def bytes_of_def strip_bom_def utf16_units_def startsWith_def chunkData_def
        substring_def trim_def is_space_def sample_parse_def lit_def)

subsection \<open>Chunks that end at a line boundary\<close>

lemma split_nl_not_Nil [simp]: "split_nl s \<noteq> []"
  by (induction s) (auto split: list.splits)

lemma split_nl_append_newline:
  "split_nl (x @ 0x0A # y) = split_nl x @ split_nl y"
proof (induction x)
  case Nil
  show ?case by simp
next
  case (Cons c x)
  obtain l ls where l: "split_nl x = l # ls"
    using split_nl_not_Nil [of x] by (cases "split_nl x") auto
  show ?case using Cons.IH l by simp
qed

lemma split_nl_ends_newline: "split_nl (x @ [0x0A]) = split_nl x @ [[]]"
  using split_nl_append_newline [of x "[]"] by simp

lemma utf8_lead_inv: "utf8_inv (snd (utf8_lead n))"
  by (simp add: utf8_lead_def utf8_inv_def utf8_fresh_def)

lemma utf8_handler_inv: "utf8_inv (snd (utf8_handler d b))"
  using utf8_lead_inv [of "unat b"]
  by (auto simp: utf8_handler_def Let_def utf8_inv_def utf8_fresh_def split: prod.splits)

lemma utf8_fresh_inv: "utf8_inv utf8_fresh"
  by (simp add: utf8_inv_def utf8_fresh_def)

lemma utf8_handler_ascii:
  assumes "unat b \<le> 0x7F" and "utf8_inv d"
  shows "\<exists>out. utf8_handler d b = (out @ [unat b], utf8_fresh)"
proof -
  have lead: "utf8_lead (unat b) = ([unat b], utf8_fresh)"
    using assms(1) by (simp add: utf8_lead_def)
  show ?thesis
  proof (cases "bytes_needed d = 0")
    case True
    then show ?thesis by (simp add: utf8_handler_def lead)
  next
    case False
    then have "\<not> (lower_boundary d \<le> unat b \<and> unat b \<le> upper_boundary d)"
      using assms by (simp add: utf8_inv_def)
    then have "utf8_handler d b = ([0xFFFD] @ [unat b], utf8_fresh)"
      using False by (simp add: utf8_handler_def lead)
    then show ?thesis by blast
  qed
qed

lemma utf8_run_ascii_resets:
  assumes "unat b \<le> 0x7F"
  shows "utf8_inv d \<Longrightarrow>
         utf8_run d (xs @ b # ys) = utf8_run d (xs @ [b]) @ utf8_run utf8_fresh ys"
proof (induction xs arbitrary: d)
  case Nil
  obtain out where "utf8_handler d b = (out @ [unat b], utf8_fresh)"
    using utf8_handler_ascii [OF assms Nil] by blast
  then show ?case by (simp add: utf8_fresh_def)
next
  case (Cons x xs)
  obtain out d' where h: "utf8_handler d x = (out, d')"
    by (cases "utf8_handler d x")
  then have "utf8_inv d'"
    using utf8_handler_inv [of d x] by simp
  then show ?case
    using Cons.IH [of d'] h by simp
qed

lemma utf8_run_ascii_last:
  assumes "unat b \<le> 0x7F"
  shows "utf8_inv d \<Longrightarrow> \<exists>pre. utf8_run d (xs @ [b]) = pre @ [unat b]"
proof (induction xs arbitrary: d)
  case Nil
  obtain out where "utf8_handler d b = (out @ [unat b], utf8_fresh)"
    using utf8_handler_ascii [OF assms Nil] by blast
  then show ?case by (simp add: utf8_fresh_def)
next
  case (Cons x xs)
  obtain out d' where h: "utf8_handler d x = (out, d')"
    by (cases "utf8_handler d x")
  then have "utf8_inv d'"
    using utf8_handler_inv [of d x] by simp
  then obtain pre where "utf8_run d' (xs @ [b]) = pre @ [unat b]"
    using Cons.IH [of d'] by blast
  then have "utf8_run d ((x # xs) @ [b]) = (out @ pre) @ [unat b]"
    using h by simp
  then show ?case by blast
qed


lemma utf8_run_need1:
  assumes "bytes_needed d = 1" and "utf8_run d t = c # rest" and "c \<noteq> 0xFFFD"
  shows "\<exists>b t'. t = b # t' \<and> lower_boundary d \<le> unat b \<and> unat b \<le> upper_boundary d
           \<and> c = code_point d * 64 + unat b mod 64"
proof (cases t)
  case Nil
  then show ?thesis using assms by simp
next
  case (Cons b t')
  show ?thesis
  proof (cases "lower_boundary d \<le> unat b \<and> unat b \<le> upper_boundary d")
    case True
    then have "utf8_handler d b = ([code_point d * 64 + unat b mod 64], utf8_fresh)"
      using assms(1) by (simp add: utf8_handler_def)
    then show ?thesis using assms(2) Cons True by simp
  next
    case False
    then have "\<exists>out d'. utf8_handler d b = (0xFFFD # out, d')"
      using assms(1) by (simp add: utf8_handler_def split: prod.splits)
    then show ?thesis using assms(2,3) Cons by auto
  qed
qed

lemma utf8_run_need_more:
  assumes "1 < bytes_needed d" and "utf8_run d t = c # rest" and "c \<noteq> 0xFFFD"
  shows "\<exists>b t'. t = b # t' \<and> lower_boundary d \<le> unat b \<and> unat b \<le> upper_boundary d
           \<and> utf8_run \<lparr>code_point = code_point d * 64 + unat b mod 64,
                        bytes_needed = bytes_needed d - 1,
                        lower_boundary = 0x80, upper_boundary = 0xBF\<rparr> t' = c # rest"
proof (cases t)
  case Nil
  then show ?thesis using assms by simp
next
  case (Cons b t')
  show ?thesis
  proof (cases "lower_boundary d \<le> unat b \<and> unat b \<le> upper_boundary d")
    case True
    then have "utf8_handler d b =
        ([], \<lparr>code_point = code_point d * 64 + unat b mod 64,
               bytes_needed = bytes_needed d - 1,
               lower_boundary = 0x80, upper_boundary = 0xBF\<rparr>)"
      using assms(1) by (simp add: utf8_handler_def)
    then show ?thesis using assms(2) Cons True by simp
  next
    case False
    then have "\<exists>out d'. utf8_handler d b = (0xFFFD # out, d')"
      using assms(1) by (simp add: utf8_handler_def split: prod.splits)
    then show ?thesis using assms(2,3) Cons by auto
  qed
qed

lemma utf8_run_need2:
  assumes "bytes_needed d = 2" and "utf8_run d t = c # rest" and "c \<noteq> 0xFFFD"
  shows "\<exists>b1 b2 t'. t = b1 # b2 # t' \<and> lower_boundary d \<le> unat b1
           \<and> unat b1 \<le> upper_boundary d \<and> 0x80 \<le> unat b2 \<and> unat b2 \<le> 0xBF
           \<and> c = (code_point d * 64 + unat b1 mod 64) * 64 + unat b2 mod 64"
proof -
  have "\<exists>b t'. t = b # t' \<and> lower_boundary d \<le> unat b \<and> unat b \<le> upper_boundary d
           \<and> utf8_run \<lparr>code_point = code_point d * 64 + unat b mod 64, bytes_needed = 1,
                        lower_boundary = 0x80, upper_boundary = 0xBF\<rparr> t' = c # rest"
    using utf8_run_need_more [of d t c rest] assms by simp
  then obtain b1 t1 where 1: "t = b1 # t1" "lower_boundary d \<le> unat b1" "unat b1 \<le> upper_boundary d"
    and r: "utf8_run \<lparr>code_point = code_point d * 64 + unat b1 mod 64, bytes_needed = 1,
                        lower_boundary = 0x80, upper_boundary = 0xBF\<rparr> t1 = c # rest"
    by blast
  obtain b2 t2 where "t1 = b2 # t2" "0x80 \<le> unat b2" "unat b2 \<le> 0xBF"
     "c = (code_point d * 64 + unat b1 mod 64) * 64 + unat b2 mod 64"
    using utf8_run_need1 [OF _ r assms(3)] by auto
  then show ?thesis using 1 by blast
qed

lemma utf8_run_need3:
  assumes "bytes_needed d = 3" and "utf8_run d t = c # rest" and "c \<noteq> 0xFFFD"
  shows "\<exists>(b1::byte) (b2::byte) (b3::byte). lower_boundary d \<le> unat b1 \<and> unat b1 \<le> upper_boundary d
           \<and> c = ((code_point d * 64 + unat b1 mod 64) * 64 + unat b2 mod 64) * 64 + unat b3 mod 64"
proof -
  have "\<exists>b t'. t = b # t' \<and> lower_boundary d \<le> unat b \<and> unat b \<le> upper_boundary d
           \<and> utf8_run \<lparr>code_point = code_point d * 64 + unat b mod 64, bytes_needed = 2,
                        lower_boundary = 0x80, upper_boundary = 0xBF\<rparr> t' = c # rest"
    using utf8_run_need_more [of d t c rest] assms by simp
  then obtain b1 :: byte and t1 where 1: "lower_boundary d \<le> unat b1" "unat b1 \<le> upper_boundary d"
    and r: "utf8_run \<lparr>code_point = code_point d * 64 + unat b1 mod 64, bytes_needed = 2,
                        lower_boundary = 0x80, upper_boundary = 0xBF\<rparr> t1 = c # rest"
    by blast
  obtain b2 :: byte and b3 :: byte where
     "c = ((code_point d * 64 + unat b1 mod 64) * 64 + unat b2 mod 64) * 64 + unat b3 mod 64"
    using utf8_run_need2 [OF _ r assms(3)] by auto
  then show ?thesis using 1 by blast
qed

lemma two_byte_small: "(0xFEFF::nat) \<noteq> n mod 32 * 64 + m mod 64"
proof -
  have "n mod 32 < 32" "m mod 64 < 64" by simp_all
  then show ?thesis by linarith
qed

lemma base64_digit:
  assumes "(a::nat) = q * 64 + r" and "r < 64"
  shows "q = a div 64" and "r = a mod 64"
  using assms by simp_all

lemma three_byte_digits:
  assumes "(0xFEFF::nat) = (c0 * 64 + x1) * 64 + x2" and "x1 < 64" and "x2 < 64"
  shows "c0 = 15 \<and> x1 = 59 \<and> x2 = 63"
proof -
  have a: "c0 * 64 + x1 = 1019" "x2 = 63"
    using base64_digit [OF assms(1,3)] by simp_all
  have "c0 = 15" "x1 = 59"
    using base64_digit [OF a(1) [symmetric] assms(2)] by simp_all
  then show ?thesis using a by simp
qed

lemma four_byte_digits:
  assumes "(0xFEFF::nat) = ((c0 * 64 + x1) * 64 + x2) * 64 + x3"
    and "x1 < 64" and "x2 < 64" and "x3 < 64"
  shows "c0 = 0 \<and> x1 = 15"
proof -
  have a: "(c0 * 64 + x1) * 64 + x2 = 1019"
    using base64_digit [OF assms(1,4)] by simp
  have b: "c0 * 64 + x1 = 15"
    using base64_digit [OF a [symmetric] assms(3)] by simp
  show ?thesis
    using base64_digit [OF b [symmetric] assms(2)] by simp
qed

lemma mod16_top: "0xE0 \<le> n \<Longrightarrow> n \<le> 0xEF \<Longrightarrow> n mod 16 = 15 \<Longrightarrow> n = (0xEF::nat)"
  by presburger

lemma mod8_zero: "0xF0 \<le> n \<Longrightarrow> n \<le> 0xF4 \<Longrightarrow> n mod 8 = 0 \<Longrightarrow> n = (0xF0::nat)"
  by presburger

lemma continuation_value:
  assumes "0x80 \<le> n" and "n \<le> 0xBF" and "n mod 64 = k"
  shows "n = (0x80::nat) + k"
proof -
  have "n = 2 * 64 + (n - 128)" and "n - 128 < 64"
    using assms(1,2) by simp_all
  then have "n - 128 = n mod 64"
    by (rule base64_digit)
  then show ?thesis
    using assms(1,3) by simp
qed

lemma byte_eq: "unat (b :: byte) = n \<Longrightarrow> n < 256 \<Longrightarrow> b = of_nat n"
  by auto

lemma utf8_run_bom:
  assumes "utf8_run utf8_fresh bs = 0xFEFF # rest"
  shows "take 3 bs = [0xEF, 0xBB, 0xBF]"
proof (cases bs)
  case Nil
  then show ?thesis using assms by (simp add: utf8_fresh_def)
next
  case (Cons b0 t)
  define n where "n = unat b0"
  have h: "utf8_handler utf8_fresh b0 = utf8_lead n"
    by (simp add: utf8_handler_def utf8_fresh_def n_def)
  have run: "(case utf8_lead n of (out, d') \<Rightarrow> out @ utf8_run d' t) = 0xFEFF # rest"
    using assms Cons h by simp
  consider "n \<le> 0x7F" | "0xC2 \<le> n \<and> n \<le> 0xDF" | "0xE0 \<le> n \<and> n \<le> 0xEF"
    | "0xF0 \<le> n \<and> n \<le> 0xF4" | "0x80 \<le> n \<and> n < 0xC2 \<or> 0xF4 < n"
    by linarith
  then show ?thesis
  proof cases
    case 1
    then show ?thesis using run by (simp add: utf8_lead_def)
  next
    case 2
    then have "utf8_run \<lparr>code_point = n mod 32, bytes_needed = 1,
              lower_boundary = 0x80, upper_boundary = 0xBF\<rparr> t = 0xFEFF # rest"
      using run by (simp add: utf8_lead_def)
    from utf8_run_need1 [OF _ this]
    obtain b :: byte where "(0xFEFF::nat) = n mod 32 * 64 + unat b mod 64" by auto
    then show ?thesis using two_byte_small [of n "unat b"] by simp
  next
    case 3
    define lo :: nat where "lo = (if n = 0xE0 then 0xA0 else 0x80)"
    define hi :: nat where "hi = (if n = 0xED then 0x9F else 0xBF)"
    have "utf8_run \<lparr>code_point = n mod 16, bytes_needed = 2,
              lower_boundary = lo, upper_boundary = hi\<rparr> t = 0xFEFF # rest"
      using run 3 by (simp add: utf8_lead_def lo_def hi_def)
    from utf8_run_need2 [OF _ this]
    obtain b1 b2 t' where t: "t = b1 # b2 # t'" and b: "lo \<le> unat b1" "unat b1 \<le> hi"
        "0x80 \<le> unat b2" "unat b2 \<le> 0xBF"
        "(0xFEFF::nat) = (n mod 16 * 64 + unat b1 mod 64) * 64 + unat b2 mod 64"
      by auto
    have bounds: "0x80 \<le> unat b1" "unat b1 \<le> 0xBF"
      using b(1,2) by (simp_all add: lo_def hi_def split: if_splits)
    have digits: "n mod 16 = 15 \<and> unat b1 mod 64 = 59 \<and> unat b2 mod 64 = 63"
      using three_byte_digits [OF b(5)] by simp
    have "n = 0xEF"
      using mod16_top [of n] 3 digits by simp
    moreover have "unat b1 = 0xBB"
      using continuation_value [OF bounds, of 59] digits by simp
    moreover have "unat b2 = 0xBF"
      using continuation_value [OF b(3,4), of 63] digits by simp
    ultimately have "b0 = 0xEF" "b1 = 0xBB" "b2 = 0xBF"
      using byte_eq [of b0 "0xEF"] byte_eq [of b1 "0xBB"] byte_eq [of b2 "0xBF"]
      by (simp_all add: n_def)
    then show ?thesis using Cons t by simp
  next
    case 4
    define lo :: nat where "lo = (if n = 0xF0 then 0x90 else 0x80)"
    define hi :: nat where "hi = (if n = 0xF4 then 0x8F else 0xBF)"
    have "utf8_run \<lparr>code_point = n mod 8, bytes_needed = 3,
              lower_boundary = lo, upper_boundary = hi\<rparr> t = 0xFEFF # rest"
      using run 4 by (simp add: utf8_lead_def lo_def hi_def)
    from utf8_run_need3 [OF _ this]
    obtain b1 :: byte and b2 :: byte and b3 :: byte where b: "lo \<le> unat b1" "unat b1 \<le> hi"
        "(0xFEFF::nat) = ((n mod 8 * 64 + unat b1 mod 64) * 64 + unat b2 mod 64) * 64 + unat b3 mod 64"
      by auto
    have digits: "n mod 8 = 0 \<and> unat b1 mod 64 = 15"
      using four_byte_digits [OF b(3)] by simp
    then have "n = 0xF0"
      using mod8_zero [of n] 4 by simp
    then have bounds: "0x80 \<le> unat b1" "0x90 \<le> unat b1" "unat b1 \<le> 0xBF"
      using b(1,2) by (simp_all add: lo_def hi_def split: if_splits)
    have "unat b1 = 0x80 + 15"
      using continuation_value [OF bounds(1,3), of 15] digits by simp
    then show ?thesis using bounds(2) by simp
  next
    case 5
    then show ?thesis using run by (auto simp: utf8_lead_def)
  qed
qed


lemma strip_bom_append: "A \<noteq> [] \<Longrightarrow> strip_bom (A @ B) = strip_bom A @ B"
  by (cases A) (simp_all add: strip_bom_def)

lemma strip_bom_without_mark:
  assumes "take 3 bs \<noteq> [0xEF, 0xBB, 0xBF]"
  shows "strip_bom (utf8_run utf8_fresh bs) = utf8_run utf8_fresh bs"
proof (cases "utf8_run utf8_fresh bs")
  case Nil
  then show ?thesis by (simp add: strip_bom_def)
next
  case (Cons c rest)
  then have "c \<noteq> 0xFEFF"
    using utf8_run_bom [of bs rest] assms by auto
  then show ?thesis using Cons by (simp add: strip_bom_def)
qed

lemma utf8_decode_after_newline:
  assumes "take 3 b \<noteq> [0xEF, 0xBB, 0xBF]"
  shows "utf8_decode (a @ 0x0A # b) = utf8_decode (a @ [0x0A]) @ utf8_decode b"
proof -
  have nl: "unat (0x0A :: byte) \<le> 0x7F" by simp
  obtain pre where pre: "utf8_run utf8_fresh (a @ [0x0A]) = pre @ [unat (0x0A :: byte)]"
    using utf8_run_ascii_last [OF nl utf8_fresh_inv] by blast
  have "utf8_run utf8_fresh (a @ 0x0A # b) =
        utf8_run utf8_fresh (a @ [0x0A]) @ utf8_run utf8_fresh b"
    by (rule utf8_run_ascii_resets [OF nl utf8_fresh_inv])
  moreover have "utf8_run utf8_fresh (a @ [0x0A]) \<noteq> []"
    using pre by simp
  ultimately have "strip_bom (utf8_run utf8_fresh (a @ 0x0A # b)) =
        strip_bom (utf8_run utf8_fresh (a @ [0x0A])) @ strip_bom (utf8_run utf8_fresh b)"
    using strip_bom_without_mark [OF assms]
      strip_bom_append [of "utf8_run utf8_fresh (a @ [0x0A])" "utf8_run utf8_fresh b"]
    by simp
  then show ?thesis
    by (simp add: utf8_decode_def)
qed

lemma utf8_decode_ends_newline: "\<exists>x. utf8_decode (a @ [0x0A]) = x @ [0x0A]"
proof -
  have nl: "unat (0x0A :: byte) \<le> 0x7F" by simp
  obtain pre where pre: "utf8_run utf8_fresh (a @ [0x0A]) = pre @ [unat (0x0A :: byte)]"
    using utf8_run_ascii_last [OF nl utf8_fresh_inv] by blast
  have "strip_bom (pre @ [10]) = (if pre = [] then [] else strip_bom pre) @ [10]"
    by (simp add: strip_bom_append) (simp add: strip_bom_def)
  then have "utf8_decode (a @ [0x0A]) =
      concat (map utf16_units (if pre = [] then [] else strip_bom pre)) @ [0x0A]"
    using pre by (simp add: utf8_decode_def utf16_units_def)
  then show ?thesis by blast
qed

lemma chunkLines_loop_empty_line:
  "chunkLines_loop parse (xs @ [] # ys) = chunkLines_loop parse (xs @ ys)"
  using chunkLines_loop_Cons [of parse "[]" ys] not_frame_skipped [OF empty_line_not_frame]
  by (simp add: chunkLines_loop_append)

lemma utf8_decode_empty: "utf8_decode [] = []"
  by (simp add: utf8_decode_def utf8_fresh_def strip_bom_def)

lemma utf8_run_flush_at_ascii:
  assumes "unat b \<le> 0x7F"
  shows "utf8_inv d \<Longrightarrow>
         utf8_run d (xs @ b # ys) = utf8_run d xs @ utf8_run utf8_fresh (b # ys)"
proof (induction xs arbitrary: d)
  case Nil
  have lead: "utf8_lead (unat b) = ([unat b], utf8_fresh)"
    using assms by (simp add: utf8_lead_def)
  have fresh: "utf8_handler utf8_fresh b = ([unat b], utf8_fresh)"
    by (simp add: utf8_handler_def utf8_fresh_def lead [unfolded utf8_fresh_def])
  show ?case
  proof (cases "bytes_needed d = 0")
    case True
    then have "utf8_handler d b = ([unat b], utf8_fresh)"
      by (simp add: utf8_handler_def lead)
    then show ?thesis using True by (simp add: fresh)
  next
    case False
    then have "\<not> (lower_boundary d \<le> unat b \<and> unat b \<le> upper_boundary d)"
      using assms Nil by (simp add: utf8_inv_def)
    then have "utf8_handler d b = ([0xFFFD, unat b], utf8_fresh)"
      using False by (simp add: utf8_handler_def lead)
    then show ?thesis using False by (simp add: fresh)
  qed
next
  case (Cons x xs)
  obtain out d' where h: "utf8_handler d x = (out, d')"
    by (cases "utf8_handler d x")
  then have "utf8_inv d'"
    using utf8_handler_inv [of d x] by simp
  then show ?case
    using Cons.IH [of d'] h by simp
qed

lemma utf8_decode_before_newline:
  "utf8_decode (a @ 0x0A # b) = utf8_decode a @ 0x0A # concat (map utf16_units (utf8_run utf8_fresh b))"
proof -
  have nl: "unat (0x0A :: byte) \<le> 0x7F" by simp
  have fresh: "utf8_run utf8_fresh (0x0A # b) = 10 # utf8_run utf8_fresh b"
    by (simp add: utf8_handler_def utf8_lead_def utf8_fresh_def)
  have run: "utf8_run utf8_fresh (a @ 0x0A # b) = utf8_run utf8_fresh a @ 10 # utf8_run utf8_fresh b"
    using utf8_run_flush_at_ascii [OF nl utf8_fresh_inv, of a b] fresh by simp
  have "strip_bom (utf8_run utf8_fresh a @ 10 # utf8_run utf8_fresh b) =
        strip_bom (utf8_run utf8_fresh a) @ 10 # utf8_run utf8_fresh b"
    by (cases "utf8_run utf8_fresh a") (simp_all add: strip_bom_def)
  then show ?thesis
    by (simp add: utf8_decode_def run utf16_units_def)
qed

lemma cut_before_newline:
  "stream_lines [a, 0x0A # b] =
     split_nl (utf8_decode a) @ [] # split_nl (concat (map utf16_units (utf8_run utf8_fresh b)))
   \<and> stream_lines [a @ 0x0A # b] =
     split_nl (utf8_decode a) @ split_nl (concat (map utf16_units (utf8_run utf8_fresh b)))"
  using utf8_decode_before_newline [of "[]" b]
  by (simp add: stream_lines_def utf8_decode_before_newline split_nl_append_newline
        utf8_decode_empty)

text \<open>
  C2, amended. When the cut falls right after a line feed and the second chunk does not
  start with a byte order mark, or right before a line feed, or when one of the two chunks
  is empty, the two chunks give the same run as the single chunk.
\<close>

theorem cut_at_line_boundary:
  assumes "a = [] \<or> b = []
           \<or> (a \<noteq> [] \<and> last a = 0x0A \<and> take 3 b \<noteq> [0xEF, 0xBB, 0xBF])
           \<or> (b \<noteq> [] \<and> hd b = 0x0A)"
  shows "for_await parse (JStream [a, b]) = for_await parse (JStream [a @ b])"
proof -
  consider "a = []" | "b = []" | "a \<noteq> []" "last a = 0x0A" "take 3 b \<noteq> [0xEF, 0xBB, 0xBF]"
    | "b \<noteq> []" "hd b = 0x0A"
    using assms by blast
  then show ?thesis
  proof cases
    case 1
    then show ?thesis
      using chunkLines_loop_empty_line [of parse "[]"]
      by (simp add: for_await_stream stream_lines_def utf8_decode_empty)
  next
    case 2
    then show ?thesis
      using chunkLines_loop_empty_line [of parse "split_nl (utf8_decode a)" "[]"]
      by (simp add: for_await_stream stream_lines_def utf8_decode_empty)
  next
    case 3
    obtain a' where a: "a = a' @ [0x0A]"
      using 3(1,2) by (metis append_butlast_last_id)
    obtain x where x: "utf8_decode (a' @ [0x0A]) = x @ [0x0A]"
      using utf8_decode_ends_newline by blast
    have whole: "utf8_decode (a @ b) = x @ 0x0A # utf8_decode b"
      using utf8_decode_after_newline [OF 3(3), of a'] a x by simp
    have "stream_lines [a, b] = split_nl x @ [] # split_nl (utf8_decode b)"
      using a x by (simp add: stream_lines_def split_nl_ends_newline)
    moreover have "stream_lines [a @ b] = split_nl x @ split_nl (utf8_decode b)"
      using whole by (simp add: stream_lines_def split_nl_append_newline)
    ultimately show ?thesis
      by (simp add: for_await_stream chunkLines_loop_empty_line)
  next
    case 4
    then obtain b' where b: "b = 0x0A # b'"
      by (cases b) auto
    show ?thesis
      unfolding b for_await_stream using cut_before_newline [of a b']
      by (simp add: chunkLines_loop_empty_line)
  qed
qed

theorem cut_at_line_boundary_witness:
  "first_frame \<noteq> [] \<and> last first_frame = 0x0A
   \<and> take 3 second_frame \<noteq> [0xEF, 0xBB, 0xBF]
   \<and> for_await sample_parse (JStream [first_frame, second_frame]) =
       ([JObj [(lit ''a'', JNum 1)], JObj [(lit ''a'', JNum 2)]], None)
   \<and> for_await sample_parse (JStream [first_frame @ second_frame]) =
       ([JObj [(lit ''a'', JNum 1)], JObj [(lit ''a'', JNum 2)]], None)"
proof -
  have h: "first_frame = [] \<or> second_frame = []
      \<or> (first_frame \<noteq> [] \<and> last first_frame = 0x0A
           \<and> take 3 second_frame \<noteq> [0xEF, 0xBB, 0xBF])
      \<or> (second_frame \<noteq> [] \<and> hd second_frame = 0x0A)"
    by (simp add: first_frame_def second_frame_def bytes_of_def)
  have e: "for_await sample_parse (JStream [first_frame, second_frame]) =
       ([JObj [(lit ''a'', JNum 1)], JObj [(lit ''a'', JNum 2)]], None)"
    by (simp add: for_await_stream stream_lines_def first_frame_def second_frame_def
        utf8_decode_def utf8_handler_def utf8_lead_def utf8_fresh_def bytes_of_def strip_bom_def
        utf16_units_def startsWith_def chunkData_def substring_def trim_def is_space_def
        sample_parse_def lit_def)
  have h': "first_frame \<noteq> [] \<and> last first_frame = 0x0A
      \<and> take 3 second_frame \<noteq> [0xEF, 0xBB, 0xBF]"
    by (simp add: first_frame_def second_frame_def bytes_of_def)
  show ?thesis
    using h' e cut_at_line_boundary [OF h, of sample_parse] by simp
qed

text \<open>
  The condition on the byte order mark is needed: each call of \<^verbatim>\<open>decode\<close> drops a mark
  at the start of its chunk, and only there.
\<close>

lemma byte_order_mark_after_cut:
  "for_await sample_parse
     (JStream [bytes_of ''x\<newline>'', [0xEF, 0xBB, 0xBF] @ bytes_of ''data: {\"a\":1}'']) =
     ([JObj [(lit ''a'', JNum 1)]], None)
   \<and> for_await sample_parse
     (JStream [bytes_of ''x\<newline>'' @ [0xEF, 0xBB, 0xBF] @ bytes_of ''data: {\"a\":1}'']) =
     ([], None)"
  by (simp add: for_await_stream stream_lines_def
        utf8_decode_def utf8_handler_def utf8_lead_def utf8_fresh_def bytes_of_def strip_bom_def
        utf16_units_def startsWith_def chunkData_def substring_def trim_def is_space_def
        sample_parse_def lit_def)

text \<open>
  C3, at the line \<^verbatim>\<open>data:{"a":1}\<close>: the line is a frame, since it starts with the five
  characters \<^verbatim>\<open>data:\<close>, but \<^verbatim>\<open>substring(6)\<close> removes six, so the payload is
  \<^verbatim>\<open>"a":1}\<close> and not \<^verbatim>\<open>{"a":1}\<close>, and the run throws.
\<close>

theorem payload_without_space_loses_a_character:
  "is_frame (lit ''data:{\"a\":1}'')
   \<and> chunkData (lit ''data:{\"a\":1}'') = lit ''\"a\":1}''
   \<and> for_await sample_parse (JStream [bytes_of ''data:{\"a\":1}\<newline>'']) =
       ([], Some SyntaxError)"
  by (simp add: for_await_stream stream_lines_def is_frame_def
        utf8_decode_def utf8_handler_def utf8_lead_def utf8_fresh_def bytes_of_def strip_bom_def utf16_units_def startsWith_def chunkData_def
        substring_def trim_def is_space_def sample_parse_def lit_def)

section \<open>Properties of the client\<close>

lemma fetches_append [simp]: "fetches (s @ s') = fetches s @ fetches s'"
  by (induction s rule: fetches.induct) auto

lemma fetchWithRetry_fetches:
  "nat retries = n \<Longrightarrow>
   \<exists>k. fetches (snd (fetchWithRetry t url opts retries d s)) =
         fetches s @ replicate (Suc k) (url, opts)"
proof (induction n arbitrary: retries d s)
  case 0
  then have "retries \<le> 0" by simp
  then have "fetches (snd (fetchWithRetry t url opts retries d s)) =
         fetches s @ replicate (Suc 0) (url, opts)"
    by (subst fetchWithRetry_unfold) (simp split: fetch_outcome.splits)
  then show ?case by blast
next
  case (Suc n)
  then have pos: "\<not> retries \<le> 0" and n: "nat (retries - 1) = n" by simp_all
  obtain k where k: "fetches (snd (fetchWithRetry t url opts (retries - 1) (times_two d)
                        (s @ [Fetch url opts, Delay d]))) =
         fetches (s @ [Fetch url opts, Delay d]) @ replicate (Suc k) (url, opts)"
    using Suc.IH [OF n] by blast
  then have again: "fetches (snd (fetchWithRetry t url opts (retries - 1) (times_two d)
                        (s @ [Fetch url opts, Delay d]))) =
         fetches s @ replicate (Suc (Suc k)) (url, opts)"
    by simp
  have once: "fetches (s @ [Fetch url opts]) = fetches s @ replicate (Suc 0) (url, opts)"
    by simp
  have "fetches (snd (fetchWithRetry t url opts retries d s)) =
          fetches s @ replicate (Suc 0) (url, opts)
      \<or> fetches (snd (fetchWithRetry t url opts retries d s)) =
          fetches s @ replicate (Suc (Suc k)) (url, opts)"
    using again once
    by (subst (1 2) fetchWithRetry_unfold) (simp split: fetch_outcome.splits)
  then show ?case by blast
qed

lemma request_net:
  "snd (request c t parse stringify m path req retries s) =
   snd (fetchWithRetry t (request_url (endpoint c) path) (request_options c stringify m req)
          (case retries of None \<Rightarrow> 3 | Some n \<Rightarrow> n) (Fin 500) s)"
  by (simp add: request_def fetchWithRetry_opt_def split: prod.splits sum.splits)

lemma chatStream_net:
  "snd (chatStream c t parse stringify p s) =
   snd (request c t parse stringify (lit ''post'') (lit ''v1/chat/completions'')
          (chat_request True p) None s)"
  by (simp add: chatStream_def chat_request_def split: prod.splits sum.splits)

lemma request_fetches:
  "\<exists>k. fetches (snd (request c t parse stringify m path req retries s)) =
        fetches s @ replicate (Suc k)
          (request_url (endpoint c) path, request_options c stringify m req)"
  unfolding request_net using fetchWithRetry_fetches [OF refl] by blast

text \<open>
  C9. Every request that \<^verbatim>\<open>chat\<close> sends goes to the chat completions url with a body
  that serialises an object whose \<^verbatim>\<open>stream\<close> field is \<^verbatim>\<open>false\<close>; for
  \<^verbatim>\<open>chatStream\<close> the field is \<^verbatim>\<open>true\<close>. In both, \<^verbatim>\<open>model\<close> and
  \<^verbatim>\<open>messages\<close> are passed on as they are, and each of \<^verbatim>\<open>temperature\<close>,
  \<^verbatim>\<open>maxTokens\<close>, \<^verbatim>\<open>topP\<close>, \<^verbatim>\<open>randomSeed\<close>, \<^verbatim>\<open>safeMode\<close> that the caller
  provided is passed on unchanged as \<^verbatim>\<open>temperature\<close>, \<^verbatim>\<open>max_tokens\<close>,
  \<^verbatim>\<open>top_p\<close>, \<^verbatim>\<open>random_seed\<close>, \<^verbatim>\<open>safe_prompt\<close>.
\<close>

theorem chat_requests_carry_stream_flag:
  "(\<exists>k. fetches (snd (chat c t parse stringify p s)) =
         fetches s @ replicate (Suc k)
           (chat_url c, request_options c stringify (lit ''post'') (chat_request False p)))
   \<and> (\<exists>k. fetches (snd (chatStream c t parse stringify p s)) =
         fetches s @ replicate (Suc k)
           (chat_url c, request_options c stringify (lit ''post'') (chat_request True p)))
   \<and> body (request_options c stringify (lit ''post'') (chat_request streaming p)) =
       stringify (chat_request streaming p)
   \<and> field (chat_request streaming p) (lit ''stream'') = JBool streaming
   \<and> field (chat_request streaming p) (lit ''model'') = model p
   \<and> field (chat_request streaming p) (lit ''messages'') = messages p
   \<and> (provided (temperature p) \<longrightarrow>
        field (chat_request streaming p) (lit ''temperature'') = temperature p)
   \<and> (provided (maxTokens p) \<longrightarrow>
        field (chat_request streaming p) (lit ''max_tokens'') = maxTokens p)
   \<and> (provided (topP p) \<longrightarrow> field (chat_request streaming p) (lit ''top_p'') = topP p)
   \<and> (provided (randomSeed p) \<longrightarrow>
        field (chat_request streaming p) (lit ''random_seed'') = randomSeed p)
   \<and> (provided (safeMode p) \<longrightarrow>
        field (chat_request streaming p) (lit ''safe_prompt'') = safeMode p)"
proof -
  have a: "\<exists>k. fetches (snd (chat c t parse stringify p s)) =
         fetches s @ replicate (Suc k)
           (chat_url c, request_options c stringify (lit ''post'') (chat_request False p))"
    unfolding chat_def chat_url_def chat_request_def by (rule request_fetches)
  have b: "\<exists>k. fetches (snd (chatStream c t parse stringify p s)) =
         fetches s @ replicate (Suc k)
           (chat_url c, request_options c stringify (lit ''post'') (chat_request True p))"
    unfolding chatStream_net chat_url_def by (rule request_fetches)
  have c: "body (request_options c stringify (lit ''post'') (chat_request streaming p)) =
       stringify (chat_request streaming p)"
    by (simp add: request_options_def)
  have d: "field (chat_request streaming p) (lit ''stream'') = JBool streaming"
    "field (chat_request streaming p) (lit ''model'') = model p"
    "field (chat_request streaming p) (lit ''messages'') = messages p"
    by (simp_all add: chat_request_def makeChatCompletionRequest_def nullish_def lit_def)
  have e: "provided (temperature p) \<longrightarrow>
        field (chat_request streaming p) (lit ''temperature'') = temperature p"
    "provided (maxTokens p) \<longrightarrow>
        field (chat_request streaming p) (lit ''max_tokens'') = maxTokens p"
    "provided (topP p) \<longrightarrow> field (chat_request streaming p) (lit ''top_p'') = topP p"
    "provided (randomSeed p) \<longrightarrow>
        field (chat_request streaming p) (lit ''random_seed'') = randomSeed p"
    "provided (safeMode p) \<longrightarrow>
        field (chat_request streaming p) (lit ''safe_prompt'') = safeMode p"
    by (simp_all add: chat_request_def makeChatCompletionRequest_def nullish_def provided_def
          lit_def)
  show ?thesis
    using a b c d e by blast
qed


theorem chat_requests_carry_stream_flag_witness:
  "provided (temperature sample_params) \<and> provided (maxTokens sample_params)
   \<and> provided (topP sample_params) \<and> provided (randomSeed sample_params)
   \<and> provided (safeMode sample_params)
   \<and> field (chat_request False sample_params) (lit ''stream'') = JBool False
   \<and> field (chat_request True sample_params) (lit ''stream'') = JBool True
   \<and> field (chat_request True sample_params) (lit ''temperature'') = JNum 0.5
   \<and> field (chat_request True sample_params) (lit ''max_tokens'') = JNum 100
   \<and> field (chat_request True sample_params) (lit ''top_p'') = JNum 0.9
   \<and> field (chat_request True sample_params) (lit ''random_seed'') = JNum 42
   \<and> field (chat_request True sample_params) (lit ''safe_prompt'') = JBool True
   \<and> fetches (snd (chat sample_client streams_200 sample_parse as_is sample_params [])) =
       [(lit ''https://api.mistral.ai/v1/chat/completions'',
         \<lparr>http_method = lit ''post'',
          headers = [(lit ''Authorization'', lit ''Bearer key''),
                     (lit ''Content-Type'', lit ''application/json'')],
          body = chat_request False sample_params\<rparr>)]"
proof -
  have h: "provided (temperature sample_params)" "provided (maxTokens sample_params)"
    "provided (topP sample_params)" "provided (randomSeed sample_params)"
    "provided (safeMode sample_params)"
    by (simp_all add: provided_def sample_params_def)
  have v: "temperature sample_params = JNum 0.5" "maxTokens sample_params = JNum 100"
    "topP sample_params = JNum 0.9" "randomSeed sample_params = JNum 42"
    "safeMode sample_params = JBool True"
    by (simp_all add: sample_params_def)
  have f: "fetches (snd (chat sample_client streams_200 sample_parse as_is sample_params [])) =
       [(lit ''https://api.mistral.ai/v1/chat/completions'',
         \<lparr>http_method = lit ''post'',
          headers = [(lit ''Authorization'', lit ''Bearer key''),
                     (lit ''Content-Type'', lit ''application/json'')],
          body = chat_request False sample_params\<rparr>)]"
    by (simp add: chat_def request_net chat_request_def fetchWithRetry_unfold streams_200_def
          sse_response_def ok_def request_url_def request_options_def sample_client_def
          MistralClient_def ENDPOINT_def template_def as_is_def header_value_def
          http_space_def lit_def)
  show ?thesis
    using h f chat_requests_carry_stream_flag [where p = sample_params and streaming = True]
      chat_requests_carry_stream_flag [where p = sample_params and streaming = False]
    unfolding v by blast
qed

lemma json_not_decodable: "is_json v \<Longrightarrow> textDecoder_decode v = Inl TypeError"
  by (cases v) simp_all

lemma chunks_loop_json_head:
  "is_json x \<Longrightarrow> chunks_loop parse (x # xs) = ([], Some TypeError)"
  by (simp add: json_not_decodable)

lemma for_await_json: "is_json v \<Longrightarrow> fst (for_await parse v) = []"
proof (cases v)
  case (JArr xs)
  assume "is_json v"
  then show ?thesis using JArr
    by (cases xs) (simp_all add: for_await_def chunks_loop_json_head del: chunks_loop.simps(2))
next
  case (JStr str)
  show ?thesis
  proof (cases "code_points str")
    case Nil
    then show ?thesis using JStr by (simp add: for_await_def)
  next
    case (Cons c cs)
    then show ?thesis using JStr
      by (simp add: for_await_def chunks_loop_json_head del: chunks_loop.simps(2))
  qed
qed (simp_all add: for_await_def)

text \<open>
  C4, in the code: \<^verbatim>\<open>_request\<close> returns \<^verbatim>\<open>response.json()\<close> for every call, so
  the loop of \<^verbatim>\<open>chatStream\<close> iterates the parsed body and not a byte stream. A value
  that \<^verbatim>\<open>JSON.parse\<close> returns is never a byte chunk, so \<^verbatim>\<open>chatStream\<close> yields no
  event at all; on a body of event frames the parse of the whole body already throws.
\<close>

theorem chatStream_iterates_parsed_body:
  "chatStream c t parse stringify p s =
     (case fetchWithRetry t (chat_url c)
             (request_options c stringify (lit ''post'') (chat_request True p)) 3 (Fin 500) s of
        (Inl e, s') \<Rightarrow> (([], Some e), s')
      | (Inr r, s') \<Rightarrow>
          (case response_json parse r of
             Inl e \<Rightarrow> (([], Some e), s')
           | Inr v \<Rightarrow> (for_await parse v, s')))
   \<and> ((\<forall>text v. parse text = Inr v \<longrightarrow> is_json v) \<longrightarrow>
        fst (fst (chatStream c t parse stringify p s)) = [])"
proof -
  have eq: "chatStream c t parse stringify p s =
     (case fetchWithRetry t (chat_url c)
             (request_options c stringify (lit ''post'') (chat_request True p)) 3 (Fin 500) s of
        (Inl e, s') \<Rightarrow> (([], Some e), s')
      | (Inr r, s') \<Rightarrow>
          (case response_json parse r of
             Inl e \<Rightarrow> (([], Some e), s')
           | Inr v \<Rightarrow> (for_await parse v, s')))"
    by (simp add: chatStream_def request_def fetchWithRetry_opt_def chat_url_def
          chat_request_def split: prod.splits sum.splits)
  have "fst (fst (chatStream c t parse stringify p s)) = []"
    if "\<forall>text v. parse text = Inr v \<longrightarrow> is_json v"
    unfolding eq using that
    by (auto simp: response_json_def for_await_json split: prod.splits sum.splits)
  then show ?thesis using eq by blast
qed

theorem chatStream_iterates_parsed_body_witness:
  "is_json (JObj [(lit ''a'', JNum 1)])
   \<and> fst (chatStream sample_client streams_200 sample_parse as_is sample_params []) =
       ([], Some SyntaxError)
   \<and> for_await sample_parse (JStream (chunks sse_response)) =
       ([JObj [(lit ''a'', JNum 1)]], None)"
proof -
  have h: "\<forall>text v. sample_parse text = Inr v \<longrightarrow> is_json v"
    by (auto simp: sample_parse_def split: if_splits)
  have r: "fetchWithRetry streams_200 (chat_url sample_client)
             (request_options sample_client as_is (lit ''post'') (chat_request True sample_params))
             3 (Fin 500) [] =
           (Inr sse_response, [Fetch (chat_url sample_client)
             (request_options sample_client as_is (lit ''post'') (chat_request True sample_params))])"
    by (subst fetchWithRetry_unfold) (simp add: streams_200_def sse_response_def ok_def)
  have j: "response_json sample_parse sse_response = Inl SyntaxError"
    by (simp add: response_json_def sse_response_def utf8_decode_def utf8_handler_def
          utf8_lead_def utf8_fresh_def bytes_of_def strip_bom_def utf16_units_def
          sample_parse_def lit_def)
  have d: "for_await sample_parse (JStream (chunks sse_response)) =
       ([JObj [(lit ''a'', JNum 1)]], None)"
    by (simp add: for_await_stream stream_lines_def sse_response_def
        utf8_decode_def utf8_handler_def utf8_lead_def utf8_fresh_def bytes_of_def strip_bom_def
        utf16_units_def startsWith_def chunkData_def substring_def trim_def is_space_def
        sample_parse_def lit_def)
  show ?thesis
    using h d chatStream_iterates_parsed_body
        [where c = sample_client and t = streams_200 and parse = sample_parse
           and stringify = as_is and p = sample_params and s = "[]"]
    by (simp add: r j)
qed

end
